theory Spec2Isabelle
  imports Complex_Main "HOL-Library.Char_ord" "HOL-Library.List_Lexorder"
    "HOL-Library.Product_Lexorder" "HOL-Library.AList" "HOL-Library.Multiset"
begin

section \<open>Python strings\<close>

text \<open>
  A Python \<^verbatim>\<open>str\<close> is a sequence of Unicode code points, and a code point is a natural
  number. Whitespace is the class of \<^verbatim>\<open>str.isspace\<close>, which \<^verbatim>\<open>str.strip\<close>,
  \<^verbatim>\<open>str.split\<close> and the class \<^verbatim>\<open>\s\<close> of \<^verbatim>\<open>re\<close> share; it is written out below.
  \<^verbatim>\<open>str.lower\<close> rests on the case tables of the Unicode database, which are not part of
  the repository: it is a parameter \<open>lower\<close> of every function that calls it.
\<close>

type_synonym str = "nat list"

definition lit :: "string \<Rightarrow> str" where
  \<comment> \<open>an ASCII literal as code points\<close>
  "lit s = map of_char s"

definition is_space :: "nat \<Rightarrow> bool" where
  \<comment> \<open>\<^verbatim>\<open>str.isspace\<close>: U+0009..000D, U+001C..0020, U+0085, U+00A0, U+1680, U+2000..200A,
      U+2028, U+2029, U+202F, U+205F, U+3000\<close>
  "is_space c =
     ((9 \<le> c \<and> c \<le> 13) \<or> (28 \<le> c \<and> c \<le> 32) \<or> c = 133 \<or> c = 160 \<or> c = 5760 \<or>
      (8192 \<le> c \<and> c \<le> 8202) \<or> c = 8232 \<or> c = 8233 \<or> c = 8239 \<or> c = 8287 \<or> c = 12288)"

definition str_strip :: "str \<Rightarrow> str" where
  \<comment> \<open>\<^verbatim>\<open>s.strip()\<close>\<close>
  "str_strip s = rev (dropWhile is_space (rev (dropWhile is_space s)))"

definition ascii_lower :: "str \<Rightarrow> str" where
  \<comment> \<open>what \<^verbatim>\<open>str.lower\<close> does to ASCII text; the instance of \<open>lower\<close> in the examples\<close>
  "ascii_lower s = map (\<lambda>c. if 65 \<le> c \<and> c \<le> 90 then c + 32 else c) s"

section \<open>Row ingestion of the rename flow (4_Change_name.py)\<close>

text \<open>
  \<^verbatim>\<open>get_rows\<close> walks \<^verbatim>\<open>enumerate(values, start=1)\<close>; the running index is the first
  argument of the recursion. A row is the list of its cells.
\<close>

fun get_rows_from :: "(str \<Rightarrow> str) \<Rightarrow> nat \<Rightarrow> str list list \<Rightarrow> (nat \<times> str \<times> str) list" where
  "get_rows_from lower idx [] = []"
| "get_rows_from lower idx (row # values) =
     (if idx = 1 \<and> row \<noteq> [] \<and> lower (str_strip (row ! 0)) = lit ''cell''
      then get_rows_from lower (Suc idx) values
      else
        let new_name = (if length row > 0 then str_strip (row ! 0) else []);
            match_title = (if length row > 2 then str_strip (row ! 2) else [])
        in if match_title = [] then get_rows_from lower (Suc idx) values
           else (idx, new_name, match_title) # get_rows_from lower (Suc idx) values)"

definition get_rows :: "(str \<Rightarrow> str) \<Rightarrow> str list list \<Rightarrow> (nat \<times> str \<times> str) list" where
  "get_rows lower values = get_rows_from lower 1 values"

section \<open>pathlib paths\<close>

text \<open>
  A path is the tuple \<^verbatim>\<open>PurePosixPath.parts\<close>: the root (\<^verbatim>\<open>/\<close> or \<^verbatim>\<open>//\<close>), when the path
  has one, followed by the components. \<^verbatim>\<open>sorted\<close> compares paths part by part, which is
  the lexicographic order of lists of strings, a string being compared code point by code
  point. Paths are equal when their parts are, as on POSIX. \<^verbatim>\<open>stem\<close> and \<^verbatim>\<open>suffix\<close> split
  the name at its last dot when that dot is neither the first nor the last character of the
  name. The slash is code point 47 and the dot 46.
\<close>

type_synonym path = "str list"

fun split_on :: "nat \<Rightarrow> str \<Rightarrow> str list" where
  \<comment> \<open>\<^verbatim>\<open>s.split(sep)\<close> for a one-character separator\<close>
  "split_on sep [] = [[]]"
| "split_on sep (c # cs) =
     (if c = sep then [] # split_on sep cs
      else (c # hd (split_on sep cs)) # tl (split_on sep cs))"

definition Path :: "str \<Rightarrow> path" where
  \<comment> \<open>\<^verbatim>\<open>Path(s)\<close>: exactly two leading slashes are kept as the root \<^verbatim>\<open>//\<close>; empty
      components and \<^verbatim>\<open>.\<close> are dropped.\<close>
  "Path s =
     (if take 2 s = [47, 47] \<and> take 3 s \<noteq> [47, 47, 47] then [[47, 47]]
      else if take 1 s = [47] then [[47]] else [])
     @ filter (\<lambda>x. x \<noteq> [] \<and> x \<noteq> [46]) (split_on 47 s)"

definition Path_name :: "path \<Rightarrow> str" where
  \<comment> \<open>\<^verbatim>\<open>p.name\<close>: the last component, empty for the empty path and for a bare root\<close>
  "Path_name p = (if p = [] \<or> p = [[47]] \<or> p = [[47, 47]] then [] else last p)"

definition rfind :: "nat \<Rightarrow> str \<Rightarrow> int" where
  \<comment> \<open>\<^verbatim>\<open>s.rfind(c)\<close>\<close>
  "rfind c s =
     (if c \<in> set s then int (length s) - 1 - int (length (takeWhile (\<lambda>x. x \<noteq> c) (rev s)))
      else - 1)"

definition Path_suffix :: "path \<Rightarrow> str" where
  "Path_suffix p =
     (let name = Path_name p; i = rfind 46 name
      in if 0 < i \<and> i < int (length name) - 1 then drop (nat i) name else [])"

definition Path_stem :: "path \<Rightarrow> str" where
  "Path_stem p =
     (let name = Path_name p; i = rfind 46 name
      in if 0 < i \<and> i < int (length name) - 1 then take (nat i) name else name)"

definition valid_name :: "str \<Rightarrow> bool" where
  \<comment> \<open>the names \<^verbatim>\<open>with_name\<close> accepts: not empty, no separator, not a lone dot\<close>
  "valid_name n = (n \<noteq> [] \<and> 47 \<notin> set n \<and> n \<noteq> [46])"

definition with_name :: "path \<Rightarrow> str \<Rightarrow> path" where
  \<comment> \<open>\<^verbatim>\<open>p.with_name(n)\<close>, for a path that has a name and a valid \<open>n\<close>;
      \<^verbatim>\<open>with_name\<close> raises \<^verbatim>\<open>ValueError\<close> otherwise, which the pass never meets: the
      registry holds files, and \<open>ensure_target_filename_component\<close> is about the names
      the pass builds.\<close>
  "with_name p n = butlast p @ [n]"

section \<open>Target names (4_Change_name.py)\<close>

function sub_runs :: "(nat \<Rightarrow> bool) \<Rightarrow> nat \<Rightarrow> str \<Rightarrow> str" where
  \<comment> \<open>\<^verbatim>\<open>re.sub("[class]+", r, s)\<close>: every maximal run of the class becomes one \<open>r\<close>\<close>
  "sub_runs P r [] = []"
| "sub_runs P r (c # cs) =
     (if P c then r # sub_runs P r (dropWhile P cs) else c # sub_runs P r cs)"
  by pat_completeness auto
termination
  by (relation "measure (\<lambda>(P, r, s). length s)") (auto simp: length_dropWhile_le less_Suc_eq_le)

definition strip_chars :: "str \<Rightarrow> str \<Rightarrow> str" where
  \<comment> \<open>\<^verbatim>\<open>s.strip(chars)\<close>\<close>
  "strip_chars chars s =
     rev (dropWhile (\<lambda>c. c \<in> set chars) (rev (dropWhile (\<lambda>c. c \<in> set chars) s)))"

definition is_alnum :: "nat \<Rightarrow> bool" where
  \<comment> \<open>the class \<^verbatim>\<open>[A-Za-z0-9]\<close>\<close>
  "is_alnum c = ((65 \<le> c \<and> c \<le> 90) \<or> (97 \<le> c \<and> c \<le> 122) \<or> (48 \<le> c \<and> c \<le> 57))"

definition slugify_filename :: "str \<Rightarrow> str" where
  \<comment> \<open>the blank is 32, the underscore 95, the dot 46, the hyphen 45\<close>
  "slugify_filename name =
     (let v1 = str_strip name;
          v2 = map (\<lambda>c. if c = 32 then 95 else c) v1;
          v3 = map (\<lambda>c. if is_alnum c \<or> c \<in> set [95, 46, 45] then c else 95) v2;
          v4 = sub_runs (\<lambda>c. c = 95) 95 v3
      in strip_chars [46, 95] v4)"

definition or_else :: "str \<Rightarrow> str \<Rightarrow> str" where
  \<comment> \<open>Python's \<^verbatim>\<open>a or b\<close> on strings\<close>
  "or_else a b = (if a \<noteq> [] then a else b)"

definition ensure_target_filename :: "str \<Rightarrow> path \<Rightarrow> str" where
  "ensure_target_filename new_name source_path =
     (let candidate = str_strip new_name in
      if candidate = [] then
        (let base = Path_stem source_path;
             ext = Path_suffix source_path;
             safe_base = or_else (slugify_filename base) (lit ''file'')
         in safe_base @ ext)
      else
        (let candidate_path = Path candidate;
             ext = or_else (Path_suffix candidate_path) (Path_suffix source_path);
             stem = (if Path_suffix candidate_path \<noteq> [] then Path_stem candidate_path
                     else candidate);
             safe_stem = or_else (slugify_filename stem)
                           (or_else (slugify_filename (Path_stem source_path)) (lit ''file''));
             ext' = (if ext \<noteq> [] \<and> take 1 ext \<noteq> [46] then [46] @ ext else ext)
         in safe_stem @ ext'))"


section \<open>The file registry (4_Change_name.py)\<close>

text \<open>
  A Python \<^verbatim>\<open>dict\<close> keeps its keys in insertion order, and \<^verbatim>\<open>_take_fuzzy\<close> hands the
  keys to the scorer in that order, so each index is an association list: storing under a
  present key keeps its place, a new key goes to the end, \<^verbatim>\<open>del\<close> removes the entry.
\<close>

type_synonym index = "(str \<times> path list) list"

record FileRegistry =
  by_name :: index
  by_stem :: index

definition get_list :: "index \<Rightarrow> str \<Rightarrow> path list" where
  \<comment> \<open>\<^verbatim>\<open>mapping.get(key)\<close>, with a missing key read as the empty list (both are falsy)\<close>
  "get_list m key = (case map_of m key of None \<Rightarrow> [] | Some items \<Rightarrow> items)"

definition setdefault_append :: "index \<Rightarrow> str \<Rightarrow> path \<Rightarrow> index" where
  \<comment> \<open>\<^verbatim>\<open>mapping.setdefault(key, []).append(path)\<close>\<close>
  "setdefault_append m key p = AList.update key (get_list m key @ [p]) m"

definition FileRegistry_register :: "(str \<Rightarrow> str) \<Rightarrow> FileRegistry \<Rightarrow> path \<Rightarrow> FileRegistry" where
  "FileRegistry_register lower r p =
     (let name_key = lower (Path_name p);
          stem_key = lower (Path_stem p)
      in r\<lparr>by_name := setdefault_append (by_name r) name_key p,
            by_stem := setdefault_append (by_stem r) stem_key p\<rparr>)"

definition FileRegistry_init :: "(str \<Rightarrow> str) \<Rightarrow> path list \<Rightarrow> FileRegistry" where
  \<comment> \<open>the constructor, on the files \<^verbatim>\<open>root.rglob("*")\<close> yields, in that order\<close>
  "FileRegistry_init lower files =
     foldl (FileRegistry_register lower) \<lparr>by_name = [], by_stem = []\<rparr> files"

definition remove_from_map :: "index \<Rightarrow> str \<Rightarrow> path \<Rightarrow> index" where
  "remove_from_map m key p =
     (let items = get_list m key in
      if items = [] then m
      else if p \<notin> set items then m
      else (let items' = remove1 p items
            in if items' = [] then AList.delete key m else AList.update key items' m))"

definition FileRegistry_unregister :: "(str \<Rightarrow> str) \<Rightarrow> FileRegistry \<Rightarrow> path \<Rightarrow> FileRegistry" where
  "FileRegistry_unregister lower r p =
     (let name_key = lower (Path_name p);
          stem_key = lower (Path_stem p)
      in r\<lparr>by_name := remove_from_map (by_name r) name_key p,
            by_stem := remove_from_map (by_stem r) stem_key p\<rparr>)"

definition FileRegistry_add :: "(str \<Rightarrow> str) \<Rightarrow> FileRegistry \<Rightarrow> path \<Rightarrow> FileRegistry" where
  "FileRegistry_add lower r p = FileRegistry_register lower r p"

text \<open>
  \<^verbatim>\<open>rapidfuzz.process.extractOne(query, choices, scorer=...)\<close> returns the first choice of
  the highest score, or \<^verbatim>\<open>None\<close> for no choices. The scorer
  (\<^verbatim>\<open>fuzz.token_set_ratio\<close>, a float from 0 to 100, read as a rational) is a parameter
  of the model.
\<close>

type_synonym scorer = "str \<Rightarrow> str \<Rightarrow> rat"

definition extractOne :: "scorer \<Rightarrow> str \<Rightarrow> str list \<Rightarrow> (str \<times> rat) option" where
  "extractOne score query choices =
     foldl (\<lambda>best choice.
              case best of
                None \<Rightarrow> Some (choice, score query choice)
              | Some (c, s) \<Rightarrow> if score query choice > s then Some (choice, score query choice)
                               else best)
       None choices"

definition take_first ::
  "(str \<Rightarrow> str) \<Rightarrow> FileRegistry \<Rightarrow> path list \<Rightarrow> path option \<times> FileRegistry" where
  \<comment> \<open>\<^verbatim>\<open>path = sorted(items)[0]; self._unregister(path); return path\<close>\<close>
  "take_first lower r items = (let p = hd (sort items) in (Some p, FileRegistry_unregister lower r p))"

definition take_fuzzy ::
  "(str \<Rightarrow> str) \<Rightarrow> scorer \<Rightarrow> FileRegistry \<Rightarrow> str \<Rightarrow> nat \<Rightarrow> path option \<times> FileRegistry" where
  "take_fuzzy lower score r candidate min_score =
     (if by_name r = [] then (None, r)
      else
        (let names = map fst (by_name r);
             match = extractOne score candidate names;
             stems = map fst (by_stem r);
             stem_match = extractOne score (Path_stem (Path candidate)) stems
         in case match of
              Some (k, s) \<Rightarrow>
                if s \<ge> of_nat min_score \<and> get_list (by_name r) k \<noteq> []
                then take_first lower r (get_list (by_name r) k)
                else (case stem_match of
                        Some (k', s') \<Rightarrow>
                          if s' \<ge> of_nat min_score \<and> get_list (by_stem r) k' \<noteq> []
                          then take_first lower r (get_list (by_stem r) k')
                          else (None, r)
                      | None \<Rightarrow> (None, r))
            | None \<Rightarrow>
                (case stem_match of
                   Some (k', s') \<Rightarrow>
                     if s' \<ge> of_nat min_score \<and> get_list (by_stem r) k' \<noteq> []
                     then take_first lower r (get_list (by_stem r) k')
                     else (None, r)
                 | None \<Rightarrow> (None, r))))"

definition FileRegistry_take ::
  "(str \<Rightarrow> str) \<Rightarrow> scorer \<Rightarrow> FileRegistry \<Rightarrow> str \<Rightarrow> nat \<Rightarrow> path option \<times> FileRegistry" where
  "FileRegistry_take lower score r lookup_name min_score =
     (let candidate = str_strip (Path_name (Path lookup_name)) in
      if candidate = [] then (None, r)
      else
        (let key = lower candidate in
         if get_list (by_name r) key \<noteq> [] then take_first lower r (get_list (by_name r) key)
         else
           (let stem_key = lower (Path_stem (Path candidate)) in
            if get_list (by_stem r) stem_key \<noteq> []
            then take_first lower r (get_list (by_stem r) stem_key)
            else take_fuzzy lower score r (lower candidate) min_score)))"


section \<open>The rename pass (4_Change_name.py, main)\<close>

text \<open>
  The file system is a parameter. \<open>fs_exists\<close> is \<^verbatim>\<open>Path.exists\<close>, which is called outside
  the \<^verbatim>\<open>try\<close> of the loop: it returns a truth value or raises (\<^verbatim>\<open>OSError\<close> for a name
  that is too long, for one), and what it raises ends the pass. \<open>fs_rename\<close> is
  \<^verbatim>\<open>Path.rename\<close>, inside the \<^verbatim>\<open>try\<close>: it returns the new file system, or \<^verbatim>\<open>None\<close> when
  it raises. The outcome of a row is the tag the loop prints for it:
  \<^verbatim>\<open>[RENAME]\<close>, \<^verbatim>\<open>[SKIP]\<close>, \<^verbatim>\<open>[MISS]\<close>, \<^verbatim>\<open>[CONFLICT]\<close>, \<^verbatim>\<open>[ERR]\<close>.
\<close>

datatype error = TypeError | ValueError | OverflowError | OSError

datatype outcome = Renamed | Unchanged | NotFound | Conflict | Error

type_synonym row = "nat \<times> str \<times> str"

definition target_path_of :: "str \<Rightarrow> path \<Rightarrow> path" where
  \<comment> \<open>lines 228 to 230: the path the row asks for, for the taken \<open>source\<close>\<close>
  "target_path_of new_name source =
     (let base_title = or_else new_name (Path_stem source);
          target_name = ensure_target_filename base_title source
      in with_name source target_name)"

definition resolve_row ::
  "(str \<Rightarrow> str) \<Rightarrow> scorer \<Rightarrow> ('fs \<Rightarrow> path \<Rightarrow> error + bool) \<Rightarrow>
   ('fs \<Rightarrow> path \<Rightarrow> path \<Rightarrow> 'fs option) \<Rightarrow> nat \<Rightarrow>
   FileRegistry \<times> 'fs \<Rightarrow> row \<Rightarrow> (FileRegistry \<times> 'fs) \<times> (error + outcome \<times> path option)" where
  \<comment> \<open>the body of the loop over the rows: the state after it, and the row's outcome with
      the candidate it took, or the exception that leaves the loop\<close>
  "resolve_row lower score fs_exists fs_rename match_threshold st rw =
     (let (registry, fs) = st; (row_idx, new_name, match_title) = rw in
      case FileRegistry_take lower score registry match_title match_threshold of
        (None, registry') \<Rightarrow> ((registry', fs), Inr (NotFound, None))
      | (Some source, registry') \<Rightarrow>
          (let target_path = target_path_of new_name source in
           if target_path = source
           then ((FileRegistry_add lower registry' source, fs), Inr (Unchanged, Some source))
           else
             (case fs_exists fs target_path of
                Inl e \<Rightarrow> ((registry', fs), Inl e)
              | Inr True \<Rightarrow> ((FileRegistry_add lower registry' source, fs), Inr (Conflict, Some source))
              | Inr False \<Rightarrow>
                  (case fs_rename fs source target_path of
                     Some fs' \<Rightarrow>
                       ((FileRegistry_add lower registry' target_path, fs'), Inr (Renamed, Some source))
                   | None \<Rightarrow>
                       ((FileRegistry_add lower registry' source, fs), Inr (Error, Some source))))))"

fun resolve ::
  "(str \<Rightarrow> str) \<Rightarrow> scorer \<Rightarrow> ('fs \<Rightarrow> path \<Rightarrow> error + bool) \<Rightarrow>
   ('fs \<Rightarrow> path \<Rightarrow> path \<Rightarrow> 'fs option) \<Rightarrow> nat \<Rightarrow>
   FileRegistry \<times> 'fs \<Rightarrow> row list \<Rightarrow>
   (FileRegistry \<times> 'fs) \<times> (nat \<times> outcome \<times> path option) list \<times> error option" where
  \<comment> \<open>the loop: the rows in table order; the final state, each resolved row's outcome and
      taken candidate, and the exception that ended the loop early, if one did\<close>
  "resolve lower score fs_exists fs_rename match_threshold st [] = (st, [], None)"
| "resolve lower score fs_exists fs_rename match_threshold st (rw # rows) =
     (case resolve_row lower score fs_exists fs_rename match_threshold st rw of
        (st', Inl e) \<Rightarrow> (st', [], Some e)
      | (st', Inr res) \<Rightarrow>
          (let (st'', out, err) = resolve lower score fs_exists fs_rename match_threshold st' rows
           in (st'', (fst rw, res) # out, err)))"

text \<open>A file system for running the pass: the list of the paths that exist.\<close>

definition list_exists :: "path list \<Rightarrow> path \<Rightarrow> error + bool" where
  "list_exists fs p = Inr (p \<in> set fs)"

definition list_rename :: "path list \<Rightarrow> path \<Rightarrow> path \<Rightarrow> path list option" where
  \<comment> \<open>renaming a file that is not there raises \<^verbatim>\<open>FileNotFoundError\<close>\<close>
  "list_rename fs src dst = (if src \<in> set fs then Some (dst # remove1 src (remove1 dst fs)) else None)"

text \<open>Sequences of registry calls, for the properties of the registry alone.\<close>

datatype registry_op = Take str nat | Add path

fun run_ops ::
  "(str \<Rightarrow> str) \<Rightarrow> scorer \<Rightarrow> FileRegistry \<Rightarrow> registry_op list \<Rightarrow> FileRegistry \<times> path option list" where
  \<comment> \<open>the registry after the calls, and what each \<^verbatim>\<open>take\<close> returned\<close>
  "run_ops lower score r [] = (r, [])"
| "run_ops lower score r (Take lookup_name min_score # ops) =
     (let (res, r') = FileRegistry_take lower score r lookup_name min_score;
          (r'', out) = run_ops lower score r' ops
      in (r'', res # out))"
| "run_ops lower score r (Add p # ops) = run_ops lower score (FileRegistry_add lower r p) ops"

definition candidates :: "index \<Rightarrow> path list" where
  \<comment> \<open>every candidate an index holds, key by key\<close>
  "candidates m = concat (map snd m)"

fun added :: "registry_op list \<Rightarrow> path list" where
  "added [] = []"
| "added (Add p # ops) = p # added ops"
| "added (Take l m # ops) = added ops"

definition taken :: "path option list \<Rightarrow> path list" where
  \<comment> \<open>the candidates of the successful takes\<close>
  "taken out = concat (map (\<lambda>res. case res of None \<Rightarrow> [] | Some p \<Rightarrow> [p]) out)"


section \<open>Text normalisation (1.3_xml_placeholders.py)\<close>

definition is_punct :: "nat \<Rightarrow> bool" where
  \<comment> \<open>\<^verbatim>\<open>string.punctuation\<close>: the 32 ASCII punctuation characters\<close>
  "is_punct c =
     ((33 \<le> c \<and> c \<le> 47) \<or> (58 \<le> c \<and> c \<le> 64) \<or> (91 \<le> c \<and> c \<le> 96) \<or> (123 \<le> c \<and> c \<le> 126))"

definition clean_text :: "(str \<Rightarrow> str) \<Rightarrow> str \<Rightarrow> str" where
  "clean_text lower s =
     (let s1 = lower s;
          s2 = map (\<lambda>c. if is_punct c then 32 else c) s1
      in str_strip (sub_runs is_space 32 s2))"

definition url_prefix :: "str \<Rightarrow> str option" where
  \<comment> \<open>\<^verbatim>\<open>https?://\<close> at the head of \<open>s\<close> with a non-blank character after it: what follows
      the two slashes\<close>
  "url_prefix s =
     (let rest = (if take 7 s = lit ''http://'' then Some (drop 7 s)
                  else if take 8 s = lit ''https://'' then Some (drop 8 s) else None)
      in case rest of
           None \<Rightarrow> None
         | Some t \<Rightarrow> if t \<noteq> [] \<and> \<not> is_space (hd t) then Some t else None)"

lemma url_prefix_shorter: "url_prefix s = Some t \<Longrightarrow> length t < length s"
  by (cases "s = []") (auto simp: url_prefix_def Let_def lit_def split: if_splits option.splits)

function sub_urls :: "str \<Rightarrow> str" where
  \<comment> \<open>\<^verbatim>\<open>re.sub(r"https?://[^\s]+", "", text)\<close>\<close>
  "sub_urls [] = []"
| "sub_urls (c # cs) =
     (case url_prefix (c # cs) of
        Some t \<Rightarrow> sub_urls (dropWhile (\<lambda>x. \<not> is_space x) t)
      | None \<Rightarrow> c # sub_urls cs)"
  by pat_completeness auto
termination
proof (relation "measure length")
  fix c cs t
  assume "url_prefix (c # cs) = Some t"
  then have "length t < length (c # cs)" by (rule url_prefix_shorter)
  moreover have "length (dropWhile (\<lambda>x. \<not> is_space x) t) \<le> length t"
    by (rule length_dropWhile_le)
  ultimately show "(dropWhile (\<lambda>x. \<not> is_space x) t, c # cs) \<in> measure length" by simp
qed auto

function str_split :: "str \<Rightarrow> str list" where
  \<comment> \<open>\<^verbatim>\<open>s.split()\<close>: the maximal runs of characters that are not whitespace\<close>
  "str_split s =
     (let t = dropWhile is_space s
      in if t = [] then []
         else takeWhile (\<lambda>x. \<not> is_space x) t # str_split (dropWhile (\<lambda>x. \<not> is_space x) t))"
  by pat_completeness auto
termination
proof (relation "measure length")
  fix s t
  assume t: "t = dropWhile is_space s" and ne: "t \<noteq> []"
  then have "\<not> is_space (hd t)" using hd_dropWhile by metis
  then have "length (dropWhile (\<lambda>x. \<not> is_space x) t) < length t"
    using ne by (cases t) (auto simp: less_Suc_eq_le length_dropWhile_le)
  moreover have "length t \<le> length s" using t by (simp add: length_dropWhile_le)
  ultimately show "(dropWhile (\<lambda>x. \<not> is_space x) t, s) \<in> measure length" by simp
qed auto

declare str_split.simps [simp del]

fun str_join :: "str \<Rightarrow> str list \<Rightarrow> str" where
  \<comment> \<open>\<^verbatim>\<open>sep.join(ws)\<close>\<close>
  "str_join sep [] = []"
| "str_join sep [w] = w"
| "str_join sep (w # ws) = w @ sep @ str_join sep ws"

definition remove_links_from_text :: "str \<Rightarrow> str" where
  "remove_links_from_text txt =
     (if txt = [] then txt else str_join [32] (str_split (sub_urls txt)))"

definition normalize_spec :: "(str \<Rightarrow> str) \<Rightarrow> str \<Rightarrow> str" where
  \<comment> \<open>The normaliser as the specification words it (section 4.1): lowercase, remove the
      embedded URLs, replace punctuation by blanks, collapse whitespace, trim.\<close>
  "normalize_spec lower s =
     (let s1 = lower s;
          s2 = sub_urls s1;
          s3 = map (\<lambda>c. if is_punct c then 32 else c) s2
      in str_strip (sub_runs is_space 32 s3))"


section \<open>Transcripts (1.3_xml_placeholders.py)\<close>

text \<open>
  A float is a finite double, read as the rational it is, an infinity or NaN. \<open>fkey\<close>
  embeds the floats other than NaN in a linear order; Python's comparisons with NaN are
  all false.
\<close>

datatype pyfloat = NaN | NInf | Fl rat | PInf

definition fkey :: "pyfloat \<Rightarrow> nat \<times> rat" where
  "fkey f = (case f of NInf \<Rightarrow> (0, 0) | Fl q \<Rightarrow> (1, q) | PInf \<Rightarrow> (2, 0) | NaN \<Rightarrow> (3, 0))"

definition float_le :: "pyfloat \<Rightarrow> pyfloat \<Rightarrow> bool" where
  \<comment> \<open>Python's \<^verbatim>\<open><=\<close> on floats\<close>
  "float_le a b = (a \<noteq> NaN \<and> b \<noteq> NaN \<and> fkey a \<le> fkey b)"

text \<open>
  What \<^verbatim>\<open>json.loads\<close> returns: \<^verbatim>\<open>None\<close>, a truth value, an \<^verbatim>\<open>int\<close>, a \<^verbatim>\<open>float\<close>
  (\<^verbatim>\<open>NaN\<close> and \<^verbatim>\<open>Infinity\<close> are accepted), a string, a list, or a \<^verbatim>\<open>dict\<close> as the list
  of its items.
\<close>

datatype json =
  JNull | JBool bool | JInt int | JFloat pyfloat | JStr str | JArr "json list" | JObj "(str \<times> json) list"

text \<open>
  The parts of the Python library the loader rests on and the repository does not
  contain are parameters: the decimal value of a digit beyond ASCII (the class \<^verbatim>\<open>\d\<close> and
  \<^verbatim>\<open>int\<close> share it), the double nearest to a rational, \<^verbatim>\<open>float\<close> on an \<^verbatim>\<open>int\<close>
  (\<^verbatim>\<open>None\<close> for \<^verbatim>\<open>OverflowError\<close>) and on a string (\<^verbatim>\<open>None\<close> for \<^verbatim>\<open>ValueError\<close>), and
  \<^verbatim>\<open>str\<close> on a value that is not a string.
\<close>

record numerics =
  uni_decimal :: "nat \<Rightarrow> nat option"
  nearest_double :: "rat \<Rightarrow> rat"
  float_of_int :: "int \<Rightarrow> pyfloat option"
  float_of_str :: "str \<Rightarrow> pyfloat option"
  str_of_json :: "json \<Rightarrow> str"

definition ascii_numerics :: numerics where
  \<comment> \<open>the instance of the examples: no digit beyond ASCII, rationals that are their own
      nearest double, no numeric strings\<close>
  "ascii_numerics =
     \<lparr>uni_decimal = (\<lambda>c. None), nearest_double = (\<lambda>q. q),
      float_of_int = (\<lambda>n. Some (Fl (of_int n))), float_of_str = (\<lambda>s. None),
      str_of_json = (\<lambda>v. [])\<rparr>"

definition digit_value :: "numerics \<Rightarrow> nat \<Rightarrow> nat option" where
  \<comment> \<open>the value of a decimal digit: written out for ASCII, the parameter beyond it\<close>
  "digit_value N c =
     (if 48 \<le> c \<and> c \<le> 57 then Some (c - 48) else if c < 128 then None else uni_decimal N c)"

definition is_digit :: "numerics \<Rightarrow> nat \<Rightarrow> bool" where
  \<comment> \<open>the class \<^verbatim>\<open>\d\<close>\<close>
  "is_digit N c = (digit_value N c \<noteq> None)"

definition int_of_digits :: "numerics \<Rightarrow> str \<Rightarrow> nat" where
  \<comment> \<open>\<^verbatim>\<open>int(s)\<close> on a string of digits\<close>
  "int_of_digits N s =
     foldl (\<lambda>n c. 10 * n + (case digit_value N c of Some d \<Rightarrow> d | None \<Rightarrow> 0)) 0 s"

text \<open>
  The two patterns of \<^verbatim>\<open>parse_timestamp_str\<close> are anchored and have no choice point that
  could succeed in two ways, so each is matched from left to right: \<^verbatim>\<open>\d{1,2}\<close> must be
  the whole run of digits before the colon (58), and a fraction takes the digits after the
  dot (46). The dash is 45.
\<close>

definition match_colon_digits :: "numerics \<Rightarrow> str \<Rightarrow> str option" where
  \<comment> \<open>\<^verbatim>\<open>:\d{2}\<close> at the head of \<open>s\<close>: the rest\<close>
  "match_colon_digits N s =
     (if take 1 s = [58] \<and> length (take 2 (drop 1 s)) = 2 \<and> list_all (is_digit N) (take 2 (drop 1 s))
      then Some (drop 3 s) else None)"

definition match_clock :: "numerics \<Rightarrow> bool \<Rightarrow> str \<Rightarrow> (str list \<times> str) option" where
  \<comment> \<open>\<^verbatim>\<open>\d{1,2}:\d{2}\<close>, or \<^verbatim>\<open>\d{1,2}:\d{2}:\d{2}\<close> when \<open>hms\<close>: the fields and the rest\<close>
  "match_clock N hms s =
     (let d = takeWhile (is_digit N) s; r = dropWhile (is_digit N) s in
      if length d = 1 \<or> length d = 2 then
        (case match_colon_digits N r of
           None \<Rightarrow> None
         | Some r2 \<Rightarrow>
             if hms then
               (case match_colon_digits N r2 of
                  None \<Rightarrow> None
                | Some r3 \<Rightarrow> Some ([d, take 2 (drop 1 r), take 2 (drop 1 r2)], r3))
             else Some ([d, take 2 (drop 1 r)], r2))
      else None)"

definition match_fraction :: "numerics \<Rightarrow> str \<Rightarrow> str option \<times> str" where
  \<comment> \<open>\<^verbatim>\<open>(?:\.(\d{1,3}))?\<close>: the group, when it matches, and the rest\<close>
  "match_fraction N s =
     (if take 1 s = [46] \<and> takeWhile (is_digit N) (drop 1 s) \<noteq> []
      then (let ms = take 3 (takeWhile (is_digit N) (drop 1 s))
            in (Some ms, drop (1 + length ms) s))
      else (None, s))"

definition match_stamp ::
  "numerics \<Rightarrow> bool \<Rightarrow> str \<Rightarrow> ((str list \<times> str option) \<times> (str list \<times> str option)) option" where
  \<comment> \<open>the whole pattern: blanks, clock, fraction, blanks, a dash, blanks, clock, fraction,
      blanks, the end\<close>
  "match_stamp N hms ts =
     (case match_clock N hms (dropWhile is_space ts) of
        None \<Rightarrow> None
      | Some (a, r1) \<Rightarrow>
          (let (a_ms, r2) = match_fraction N r1; r3 = dropWhile is_space r2 in
           if take 1 r3 \<noteq> [45] then None
           else
             (case match_clock N hms (dropWhile is_space (drop 1 r3)) of
                None \<Rightarrow> None
              | Some (b, r4) \<Rightarrow>
                  (let (b_ms, r5) = match_fraction N r4 in
                   if dropWhile is_space r5 = [] then Some ((a, a_ms), (b, b_ms)) else None))))"

definition to_sec :: "numerics \<Rightarrow> str list \<Rightarrow> str option \<Rightarrow> pyfloat" where
  \<comment> \<open>the seconds of the fields of a clock (two fields are minutes and seconds, three are
      hours, minutes and seconds), an exact \<^verbatim>\<open>int\<close>; with a fraction, the float sum of it
      and \<^verbatim>\<open>float("0." + ms)\<close>; the result as a float\<close>
  "to_sec N parts ms =
     (let h = (if length parts = 2 then 0 else int_of_digits N (parts ! (length parts - 3)));
          mm = int_of_digits N (parts ! (length parts - 2));
          ss = int_of_digits N (parts ! (length parts - 1));
          sec = h * 3600 + mm * 60 + ss
      in case ms of
           None \<Rightarrow> Fl (nearest_double N (of_nat sec))
         | Some d \<Rightarrow>
             Fl (nearest_double N
                   (of_nat sec
                    + nearest_double N (of_nat (int_of_digits N d) / of_nat (10 ^ length d)))))"

definition parse_timestamp_str :: "numerics \<Rightarrow> str \<Rightarrow> (pyfloat \<times> pyfloat) option" where
  \<comment> \<open>on a string; \<^verbatim>\<open>None\<close> is the pair \<^verbatim>\<open>(None, None)\<close>\<close>
  "parse_timestamp_str N ts =
     (if ts = [] then None
      else case match_stamp N False ts of
             Some ((a, a_ms), (b, b_ms)) \<Rightarrow> Some (to_sec N a a_ms, to_sec N b b_ms)
           | None \<Rightarrow>
               (case match_stamp N True ts of
                  Some ((a, a_ms), (b, b_ms)) \<Rightarrow> Some (to_sec N a a_ms, to_sec N b b_ms)
                | None \<Rightarrow> None))"

fun truthy :: "json \<Rightarrow> bool" where
  \<comment> \<open>the truth value of a value in \<^verbatim>\<open>if\<close> and \<^verbatim>\<open>or\<close>\<close>
  "truthy JNull = False"
| "truthy (JBool b) = b"
| "truthy (JInt n) = (n \<noteq> 0)"
| "truthy (JFloat f) = (f \<noteq> Fl 0)"
| "truthy (JStr s) = (s \<noteq> [])"
| "truthy (JArr xs) = (xs \<noteq> [])"
| "truthy (JObj kv) = (kv \<noteq> [])"

definition dict_get :: "(str \<times> json) list \<Rightarrow> str \<Rightarrow> json" where
  \<comment> \<open>\<^verbatim>\<open>it.get(key)\<close>: \<^verbatim>\<open>None\<close> for a missing key\<close>
  "dict_get it key = (case map_of it key of None \<Rightarrow> JNull | Some v \<Rightarrow> v)"

fun py_float :: "numerics \<Rightarrow> json \<Rightarrow> error + pyfloat" where
  \<comment> \<open>\<^verbatim>\<open>float(v)\<close>\<close>
  "py_float N (JFloat f) = Inr f"
| "py_float N (JInt n) = (case float_of_int N n of None \<Rightarrow> Inl OverflowError | Some f \<Rightarrow> Inr f)"
| "py_float N (JBool b) = Inr (Fl (if b then 1 else 0))"
| "py_float N (JStr s) = (case float_of_str N s of None \<Rightarrow> Inl ValueError | Some f \<Rightarrow> Inr f)"
| "py_float N JNull = Inl TypeError"
| "py_float N (JArr xs) = Inl TypeError"
| "py_float N (JObj kv) = Inl TypeError"

record segment =
  seg_text :: str
  seg_start :: pyfloat
  seg_end :: pyfloat

definition item_text :: "numerics \<Rightarrow> (str \<times> json) list \<Rightarrow> str" where
  \<comment> \<open>\<^verbatim>\<open>str(it.get("text", "") or "")\<close>\<close>
  "item_text N it =
     (let v = dict_get it (lit ''text'') in
      if truthy v then (case v of JStr s \<Rightarrow> s | _ \<Rightarrow> str_of_json N v) else [])"

definition resolve_times :: "numerics \<Rightarrow> (str \<times> json) list \<Rightarrow> error + json \<times> json" where
  \<comment> \<open>lines 257 to 260: \<^verbatim>\<open>start\<close> and \<^verbatim>\<open>end\<close> after the timestamp has been consulted;
      \<^verbatim>\<open>re.match\<close> raises \<^verbatim>\<open>TypeError\<close> on a timestamp that is not a string\<close>
  "resolve_times N it =
     (let start = dict_get it (lit ''start'');
          end = dict_get it (lit ''end'');
          ts = dict_get it (lit ''timestamp'')
      in if truthy ts \<and> (start = JNull \<or> end = JNull) then
           (case ts of
              JStr s \<Rightarrow>
                (case parse_timestamp_str N s of
                   None \<Rightarrow> Inr (JNull, JNull)
                 | Some (a, b) \<Rightarrow> Inr (JFloat a, JFloat b))
            | _ \<Rightarrow> Inl TypeError)
         else Inr (start, end))"

definition load_item :: "numerics \<Rightarrow> (str \<times> json) list \<Rightarrow> error + segment option" where
  \<comment> \<open>the body of the loop on an object: the segment appended, \<^verbatim>\<open>None\<close> for
      \<^verbatim>\<open>continue\<close>, or the exception\<close>
  "load_item N it =
     (case resolve_times N it of
        Inl e \<Rightarrow> Inl e
      | Inr (start, end) \<Rightarrow>
          if start = JNull \<or> end = JNull then Inr None
          else
            (case py_float N start of
               Inl e \<Rightarrow> Inl e
             | Inr a \<Rightarrow>
                 (case py_float N end of
                    Inl e \<Rightarrow> Inl e
                  | Inr b \<Rightarrow> Inr (Some \<lparr>seg_text = item_text N it, seg_start = a, seg_end = b\<rparr>))))"

fun collect_items :: "numerics \<Rightarrow> json list \<Rightarrow> error + segment list" where
  \<comment> \<open>the loop over the elements: \<^verbatim>\<open>out\<close>, or the first exception\<close>
  "collect_items N [] = Inr []"
| "collect_items N (JObj it # rest) =
     (case load_item N it of
        Inl e \<Rightarrow> Inl e
      | Inr None \<Rightarrow> collect_items N rest
      | Inr (Some g) \<Rightarrow>
          (case collect_items N rest of Inl e \<Rightarrow> Inl e | Inr gs \<Rightarrow> Inr (g # gs)))"
| "collect_items N (v # rest) = collect_items N rest"

definition iterate :: "json \<Rightarrow> error + json list" where
  \<comment> \<open>\<^verbatim>\<open>for it in data\<close>: the elements of a list, the keys of a \<^verbatim>\<open>dict\<close>, the characters
      of a string; anything else is not iterable\<close>
  "iterate data =
     (case data of
        JArr xs \<Rightarrow> Inr xs
      | JObj kv \<Rightarrow> Inr (map (\<lambda>e. JStr (fst e)) kv)
      | JStr s \<Rightarrow> Inr (map (\<lambda>c. JStr [c]) s)
      | _ \<Rightarrow> Inl TypeError)"

datatype load_result = Raises error | Returns "segment list" | Unordered "segment list"

definition load_transcript_json :: "numerics \<Rightarrow> json \<Rightarrow> load_result" where
  \<comment> \<open>on the value \<^verbatim>\<open>json.loads\<close> returned. \<^verbatim>\<open>list.sort(key=...)\<close> is stable, as
      \<^const>\<open>sort_key\<close> is, when the keys are linearly ordered. With a NaN among the starts
      of two or more segments the comparisons of \<^verbatim>\<open>list.sort\<close> are not those of an order
      and the list it leaves is the segments in an order the model does not determine:
      \<open>Unordered\<close>, with the segments as collected.\<close>
  "load_transcript_json N data =
     (case iterate data of
        Inl e \<Rightarrow> Raises e
      | Inr xs \<Rightarrow>
          (case collect_items N xs of
             Inl e \<Rightarrow> Raises e
           | Inr out \<Rightarrow>
               if 2 \<le> length out \<and> NaN \<in> set (map seg_start out) then Unordered out
               else Returns (sort_key (\<lambda>g. fkey (seg_start g)) out)))"

text \<open>
  \<^verbatim>\<open>best_match\<close>: the scorer (\<^verbatim>\<open>fuzz.partial_ratio\<close>, a float from 0 to 100, read as a
  rational) is a parameter. The loop carries \<^verbatim>\<open>(best_i, best_s)\<close>, starting at
  \<^verbatim>\<open>(None, -1)\<close>.
\<close>

fun best_match_loop ::
  "(str \<Rightarrow> str) \<Rightarrow> scorer \<Rightarrow> str \<Rightarrow> nat \<Rightarrow> segment list \<Rightarrow> nat option \<times> rat \<Rightarrow> nat option \<times> rat" where
  "best_match_loop lower score q i [] best = best"
| "best_match_loop lower score q i (seg # segs) (best_i, best_s) =
     (let s_text = clean_text lower (seg_text seg);
          sc = score q s_text
      in if sc > best_s then best_match_loop lower score q (Suc i) segs (Some i, sc)
         else best_match_loop lower score q (Suc i) segs (best_i, best_s))"

definition py_int :: "rat \<Rightarrow> int" where
  \<comment> \<open>\<^verbatim>\<open>int(x)\<close> on a float: truncation towards zero\<close>
  "py_int x = (if 0 \<le> x then \<lfloor>x\<rfloor> else \<lceil>x\<rceil>)"

definition best_match :: "(str \<Rightarrow> str) \<Rightarrow> scorer \<Rightarrow> str \<Rightarrow> segment list \<Rightarrow> nat option \<times> int" where
  "best_match lower score phrase segments =
     (let q = clean_text lower phrase in
      if q = [] then (None, 0)
      else (let (best_i, best_s) = best_match_loop lower score q 0 segments (None, - 1)
            in (best_i, py_int best_s)))"

datatype warning = NoMatch nat | LowScore nat int

record alignment =
  row_number :: nat
  phrase_text :: str
  align_start :: pyfloat
  align_end :: pyfloat
  align_score :: int

fun align_rows ::
  "(str \<Rightarrow> str) \<Rightarrow> scorer \<Rightarrow> int \<Rightarrow> segment list \<Rightarrow> (nat \<times> str) list \<Rightarrow>
   alignment list \<times> warning list" where
  \<comment> \<open>lines 525 to 542 of \<^verbatim>\<open>main\<close>: a row is its number and the phrase of the chosen column;
      the result is \<^verbatim>\<open>(aligns, warns)\<close>. \<^verbatim>\<open>segments[idx]\<close> is in range, see
      \<open>best_match_in_range\<close>.\<close>
  "align_rows lower score threshold segments [] = ([], [])"
| "align_rows lower score threshold segments ((n, phrase) # rows) =
     (let (aligns, warns) = align_rows lower score threshold segments rows in
      case best_match lower score phrase segments of
        (None, sc) \<Rightarrow> (aligns, NoMatch n # warns)
      | (Some idx, sc) \<Rightarrow>
          (\<lparr>row_number = n, phrase_text = phrase,
            align_start = seg_start (segments ! idx), align_end = seg_end (segments ! idx),
            align_score = sc\<rparr> # aligns,
           (if sc < threshold then LowScore n sc # warns else warns)))"

definition align_flow ::
  "(str \<Rightarrow> str) \<Rightarrow> scorer \<Rightarrow> int \<Rightarrow> segment list \<Rightarrow> (nat \<times> str) list \<Rightarrow>
   (alignment list \<times> warning list) option" where
  \<comment> \<open>lines 515 to 542, on the segments the loader returned: \<^verbatim>\<open>main\<close> returns early, with
      no alignment at all, when there is no segment\<close>
  "align_flow lower score threshold segments rows =
     (if segments = [] then None else Some (align_rows lower score threshold segments rows))"

definition row_warnings ::
  "(str \<Rightarrow> str) \<Rightarrow> scorer \<Rightarrow> int \<Rightarrow> segment list \<Rightarrow> nat \<times> str \<Rightarrow> warning list" where
  \<comment> \<open>lines 528 to 532: what one row appends to \<^verbatim>\<open>warns\<close>\<close>
  "row_warnings lower score threshold segments r =
     (case best_match lower score (snd r) segments of
        (None, sc) \<Rightarrow> [NoMatch (fst r)]
      | (Some idx, sc) \<Rightarrow> if sc < threshold then [LowScore (fst r) sc] else [])"

section \<open>Invariants of the registry\<close>

text \<open>
  What every registry built by the constructor and changed by \<^verbatim>\<open>take\<close> and \<^verbatim>\<open>add\<close>
  satisfies: an index has each key once and files each candidate under the candidate's own
  key, and the two indices hold the same candidates.
\<close>

definition index_ok :: "(path \<Rightarrow> str) \<Rightarrow> index \<Rightarrow> bool" where
  "index_ok keyf m = (distinct (map fst m) \<and> list_all (\<lambda>(k, items). list_all (\<lambda>p. keyf p = k) items) m)"

definition name_key :: "(str \<Rightarrow> str) \<Rightarrow> path \<Rightarrow> str" where
  "name_key lower p = lower (Path_name p)"

definition stem_key :: "(str \<Rightarrow> str) \<Rightarrow> path \<Rightarrow> str" where
  "stem_key lower p = lower (Path_stem p)"

definition reg_ok :: "(str \<Rightarrow> str) \<Rightarrow> FileRegistry \<Rightarrow> bool" where
  "reg_ok lower r =
     (index_ok (name_key lower) (by_name r) \<and> index_ok (stem_key lower) (by_stem r) \<and>
      mset (candidates (by_name r)) = mset (candidates (by_stem r)))"


section \<open>Running the definitions\<close>

text \<open>The equations that evaluate the functions of the model on a given input.\<close>

lemmas path_simps = lit_def Path_def Path_name_def Path_stem_def Path_suffix_def rfind_def
  with_name_def

lemmas reg_simps = FileRegistry_init_def FileRegistry_register_def FileRegistry_unregister_def
  FileRegistry_add_def FileRegistry_take_def take_first_def take_fuzzy_def extractOne_def
  setdefault_append_def remove_from_map_def get_list_def str_strip_def is_space_def
  ascii_lower_def

lemmas pass_simps = resolve_row_def target_path_of_def ensure_target_filename_def
  slugify_filename_def strip_chars_def is_alnum_def or_else_def list_exists_def list_rename_def


section \<open>Properties of row ingestion\<close>

lemma get_rows_from_mem:
  "(i, a, c) \<in> set (get_rows_from lower k values) \<longleftrightarrow>
     k \<le> i \<and> i < k + length values \<and>
     a = (if length (values ! (i - k)) > 0 then str_strip (values ! (i - k) ! 0) else []) \<and>
     c = (if length (values ! (i - k)) > 2 then str_strip (values ! (i - k) ! 2) else []) \<and>
     c \<noteq> [] \<and>
     \<not> (i = 1 \<and> values ! (i - k) \<noteq> [] \<and> lower (str_strip (values ! (i - k) ! 0)) = lit ''cell'')"
proof (induction "values" arbitrary: k)
  case Nil
  then show ?case by simp
next
  case (Cons row rest)
  have shift: "\<And>j. Suc k \<le> j \<Longrightarrow> (row # rest) ! (j - k) = rest ! (j - Suc k)"
    by (simp add: nth_Cons')
  show ?case
  proof (cases "i = k")
    case True
    have "(k, a, c) \<notin> set (get_rows_from lower (Suc k) rest)"
      using Cons.IH [of "Suc k"] True by simp
    then show ?thesis
      using True by (auto simp: Let_def)
  next
    case False
    have "(i, a, c) \<in> set (get_rows_from lower k (row # rest)) \<longleftrightarrow>
          (i, a, c) \<in> set (get_rows_from lower (Suc k) rest)"
      using False by (auto simp: Let_def)
    also have "\<dots> \<longleftrightarrow> Suc k \<le> i \<and> i < Suc k + length rest \<and>
       a = (if length (rest ! (i - Suc k)) > 0 then str_strip (rest ! (i - Suc k) ! 0) else []) \<and>
       c = (if length (rest ! (i - Suc k)) > 2 then str_strip (rest ! (i - Suc k) ! 2) else []) \<and>
       c \<noteq> [] \<and>
       \<not> (i = 1 \<and> rest ! (i - Suc k) \<noteq> [] \<and> lower (str_strip (rest ! (i - Suc k) ! 0)) = lit ''cell'')"
      by (rule Cons.IH)
    also have "\<dots> \<longleftrightarrow> k \<le> i \<and> i < k + length (row # rest) \<and>
       a = (if length ((row # rest) ! (i - k)) > 0 then str_strip ((row # rest) ! (i - k) ! 0) else []) \<and>
       c = (if length ((row # rest) ! (i - k)) > 2 then str_strip ((row # rest) ! (i - k) ! 2) else []) \<and>
       c \<noteq> [] \<and>
       \<not> (i = 1 \<and> (row # rest) ! (i - k) \<noteq> [] \<and> lower (str_strip ((row # rest) ! (i - k) ! 0)) = lit ''cell'')"
    proof (cases "Suc k \<le> i")
      case True
      then show ?thesis using shift [OF True] by auto
    next
      case False
      then show ?thesis using \<open>i \<noteq> k\<close> by auto
    qed
    finally show ?thesis .
  qed
qed

text \<open>
  C10. Row \<open>i\<close> of the table (counted from 1) is returned exactly when its third cell,
  stripped, is not empty (a row with fewer than three cells counts as empty there) and it
  is not row 1 with a first cell that reads \<^verbatim>\<open>cell\<close> once stripped and lowercased; it is
  then returned once, with its stripped first and third cells. So a row without a match
  key yields nothing, the header rule applies to row 1 only, and every returned row has a
  non-empty match key.
\<close>

theorem get_rows_keeps_exactly_keyed_rows:
  "((i, a, c) \<in> set (get_rows lower values) \<longleftrightarrow>
      1 \<le> i \<and> i \<le> length values \<and>
      a = (if length (values ! (i - 1)) > 0 then str_strip (values ! (i - 1) ! 0) else []) \<and>
      c = (if length (values ! (i - 1)) > 2 then str_strip (values ! (i - 1) ! 2) else []) \<and>
      c \<noteq> [] \<and>
      \<not> (i = 1 \<and> values ! (i - 1) \<noteq> [] \<and> lower (str_strip (values ! (i - 1) ! 0)) = lit ''cell''))
   \<and> (\<forall>r \<in> set (get_rows lower values). snd (snd r) \<noteq> [])
   \<and> distinct (map fst (get_rows lower values))"
proof -
  have mem: "\<And>i a c k vs. (i, a, c) \<in> set (get_rows_from lower k vs) \<Longrightarrow> k \<le> i \<and> c \<noteq> []"
    using get_rows_from_mem by blast
  have dist: "\<And>k vs. distinct (map fst (get_rows_from lower k vs))"
  proof -
    fix k vs
    show "distinct (map fst (get_rows_from lower k vs))"
    proof (induction vs arbitrary: k)
      case Nil
      then show ?case by simp
    next
      case (Cons row rest)
      have "k \<notin> fst ` set (get_rows_from lower (Suc k) rest)"
        using mem [where k = "Suc k" and vs = rest] by fastforce
      then show ?case using Cons.IH by (auto simp: Let_def)
    qed
  qed
  have "\<forall>r \<in> set (get_rows lower values). snd (snd r) \<noteq> []"
    using mem [where k = 1 and vs = "values"] unfolding get_rows_def by (metis prod.collapse)
  moreover have "(i, a, c) \<in> set (get_rows lower values) \<longleftrightarrow>
      1 \<le> i \<and> i \<le> length values \<and>
      a = (if length (values ! (i - 1)) > 0 then str_strip (values ! (i - 1) ! 0) else []) \<and>
      c = (if length (values ! (i - 1)) > 2 then str_strip (values ! (i - 1) ! 2) else []) \<and>
      c \<noteq> [] \<and>
      \<not> (i = 1 \<and> values ! (i - 1) \<noteq> [] \<and> lower (str_strip (values ! (i - 1) ! 0)) = lit ''cell'')"
    unfolding get_rows_def using get_rows_from_mem [of i a c lower 1 "values"]
    by (simp add: less_Suc_eq_le)
  ultimately show ?thesis
    using dist [of 1 "values"] unfolding get_rows_def by blast
qed

theorem get_rows_keeps_exactly_keyed_rows_witness:
  "get_rows ascii_lower
     [[lit ''Cell'', lit ''U'', lit ''T''], [lit ''n'', lit ''u'', 160 # lit '' o.m''],
      [lit ''x'', lit ''u'', [32, 160, 12288]], [lit ''y''], [lit ''cell'', [], lit ''t'']]
     = [(2, lit ''n'', lit ''o.m''), (5, lit ''cell'', lit ''t'')]
   \<and> (2, lit ''n'', lit ''o.m'') \<in> set (get_rows ascii_lower
         [[lit ''Cell'', lit ''U'', lit ''T''], [lit ''n'', lit ''u'', 160 # lit '' o.m''],
          [lit ''x'', lit ''u'', [32, 160, 12288]], [lit ''y''], [lit ''cell'', [], lit ''t'']])"
proof -
  let ?v = "[[lit ''Cell'', lit ''U'', lit ''T''], [lit ''n'', lit ''u'', 160 # lit '' o.m''],
      [lit ''x'', lit ''u'', [32, 160, 12288]], [lit ''y''], [lit ''cell'', [], lit ''t'']]"
  have e: "get_rows ascii_lower ?v = [(2, lit ''n'', lit ''o.m''), (5, lit ''cell'', lit ''t'')]"
    by (simp add: get_rows_def lit_def str_strip_def is_space_def ascii_lower_def)
  have s: "str_strip (160 # lit '' o.m'') = lit ''o.m''" "str_strip (lit ''n'') = lit ''n''"
    "lit ''o.m'' \<noteq> []"
    by (simp_all add: lit_def str_strip_def is_space_def)
  have "(2, lit ''n'', lit ''o.m'') \<in> set (get_rows ascii_lower ?v)"
    using get_rows_keeps_exactly_keyed_rows [of 2 "lit ''n''" "lit ''o.m''" ascii_lower ?v] s by simp
  with e show ?thesis by simp
qed


section \<open>The registry conserves its candidates\<close>

lemma get_list_update: "get_list (AList.update k v m) k' = (if k' = k then v else get_list m k')"
  by (simp add: get_list_def update_conv')

lemma get_list_delete: "get_list (AList.delete k m) k' = (if k' = k then [] else get_list m k')"
  by (simp add: get_list_def delete_conv')

lemma get_list_subset: "set (get_list m k) \<subseteq> set (candidates m)"
proof (cases "map_of m k")
  case None
  then show ?thesis by (simp add: get_list_def)
next
  case (Some items)
  then have "(k, items) \<in> set m" by (rule map_of_SomeD)
  then show ?thesis using Some by (force simp: get_list_def candidates_def)
qed

lemma candidates_update:
  "mset (candidates (AList.update k v m)) + mset (get_list m k) = mset (candidates m) + mset v"
  by (induction m) (auto simp: candidates_def get_list_def)

lemma candidates_delete:
  "distinct (map fst m) \<Longrightarrow> mset (candidates (AList.delete k m)) + mset (get_list m k) = mset (candidates m)"
proof (induction m)
  case Nil
  then show ?case by (simp add: candidates_def get_list_def)
next
  case (Cons a m)
  obtain k' v where a: "a = (k', v)" by (cases a)
  show ?case
  proof (cases "k' = k")
    case True
    then have "k \<notin> fst ` set m" using Cons.prems a by auto
    then have "AList.delete k m = m" by (simp add: delete_id)
    then show ?thesis using True a by (simp add: candidates_def get_list_def)
  next
    case False
    then show ?thesis using Cons a by (simp add: candidates_def get_list_def)
  qed
qed

lemma candidates_setdefault_append:
  "mset (candidates (setdefault_append m k p)) = mset (candidates m) + {#p#}"
  using candidates_update [of k "get_list m k @ [p]" m]
  by (simp add: setdefault_append_def)

lemma candidates_remove_from_map:
  assumes "distinct (map fst m)" and "p \<in> set (get_list m k)"
  shows "mset (candidates (remove_from_map m k p)) + {#p#} = mset (candidates m)"
proof -
  let ?items = "get_list m k"
  have ne: "?items \<noteq> []" using assms(2) by auto
  show ?thesis
  proof (cases "remove1 p ?items = []")
    case True
    then have "?items = [p]" using assms(2)
      by (cases ?items) (auto split: if_splits)
    then have "mset ?items = {#p#}" by simp
    moreover have "remove_from_map m k p = AList.delete k m"
      using True ne assms(2) by (simp add: remove_from_map_def Let_def)
    ultimately show ?thesis using candidates_delete [OF assms(1), of k] by simp
  next
    case False
    then have rm: "remove_from_map m k p = AList.update k (remove1 p ?items) m"
      using ne assms(2) by (simp add: remove_from_map_def Let_def)
    define R where "R = mset (remove1 p ?items)"
    have i: "mset ?items = add_mset p R"
      using assms(2) unfolding R_def by simp
    have "mset (candidates (AList.update k (remove1 p ?items) m)) + mset ?items
            = mset (candidates m) + R"
      unfolding R_def by (rule candidates_update)
    then have "add_mset p (mset (candidates (AList.update k (remove1 p ?items) m))) + R
            = mset (candidates m) + R"
      unfolding i by simp
    then show ?thesis unfolding rm by simp
  qed
qed


lemma index_ok_iff:
  "index_ok keyf m \<longleftrightarrow> distinct (map fst m) \<and> (\<forall>k items p. (k, items) \<in> set m \<longrightarrow> p \<in> set items \<longrightarrow> keyf p = k)"
  by (auto simp: index_ok_def list_all_iff)

lemma index_ok_get_list:
  "index_ok keyf m \<Longrightarrow> p \<in> set (get_list m k) \<Longrightarrow> keyf p = k"
  by (auto simp: index_ok_iff get_list_def split: option.splits dest: map_of_SomeD)

lemma index_ok_member:
  assumes "index_ok keyf m" and "p \<in> set (candidates m)"
  shows "p \<in> set (get_list m (keyf p))"
proof -
  obtain k items where ki: "(k, items) \<in> set m" "p \<in> set items"
    using assms(2) by (auto simp: candidates_def)
  then have "keyf p = k" using assms(1) by (auto simp: index_ok_iff)
  moreover have "map_of m k = Some items"
    using ki assms(1) by (simp add: index_ok_iff)
  ultimately show ?thesis using ki by (simp add: get_list_def)
qed

lemma set_update_subset:
  "(k', items) \<in> set (AList.update k v m) \<Longrightarrow> (k', items) \<in> set m \<or> (k' = k \<and> items = v)"
  by (induction m) (auto split: if_splits)

lemma set_delete_subset: "(k', items) \<in> set (AList.delete k m) \<Longrightarrow> (k', items) \<in> set m"
  by (auto simp: AList.delete_eq)

lemma index_ok_update:
  assumes "index_ok keyf m" and "\<forall>p \<in> set v. keyf p = k"
  shows "index_ok keyf (AList.update k v m)"
  unfolding index_ok_iff
proof (intro conjI allI impI)
  show "distinct (map fst (AList.update k v m))"
    using assms(1) by (simp add: index_ok_iff distinct_update)
next
  fix k' items p
  assume "(k', items) \<in> set (AList.update k v m)" and "p \<in> set items"
  then show "keyf p = k'"
    using set_update_subset [of k' items k v m] assms by (auto simp: index_ok_iff)
qed

lemma index_ok_delete: "index_ok keyf m \<Longrightarrow> index_ok keyf (AList.delete k m)"
  unfolding index_ok_iff by (auto simp: distinct_delete dest: set_delete_subset)

lemma index_ok_setdefault_append:
  "index_ok keyf m \<Longrightarrow> keyf p = k \<Longrightarrow> index_ok keyf (setdefault_append m k p)"
  unfolding setdefault_append_def
  by (rule index_ok_update) (auto dest: index_ok_get_list)

lemma index_ok_remove_from_map:
  assumes "index_ok keyf m"
  shows "index_ok keyf (remove_from_map m k p)"
proof -
  have "\<forall>q \<in> set (remove1 p (get_list m k)). keyf q = k"
    using assms index_ok_get_list [of keyf m _ k] by (auto dest: notin_set_remove1)
  then show ?thesis
    using assms by (simp add: remove_from_map_def Let_def index_ok_update index_ok_delete)
qed

lemma reg_ok_register:
  assumes "reg_ok lower r"
  shows "reg_ok lower (FileRegistry_register lower r p)"
    and "mset (candidates (by_name (FileRegistry_register lower r p))) = mset (candidates (by_name r)) + {#p#}"
  using assms
  by (simp_all add: reg_ok_def FileRegistry_register_def Let_def index_ok_setdefault_append
      name_key_def stem_key_def candidates_setdefault_append)

lemma reg_ok_unregister:
  assumes "reg_ok lower r" and "p \<in> set (candidates (by_name r))"
  shows "reg_ok lower (FileRegistry_unregister lower r p)"
    and "mset (candidates (by_name (FileRegistry_unregister lower r p))) + {#p#} = mset (candidates (by_name r))"
proof -
  have n: "p \<in> set (get_list (by_name r) (name_key lower p))"
    using assms by (simp add: reg_ok_def index_ok_member)
  have "p \<in> set (candidates (by_stem r))"
    using assms by (metis reg_ok_def set_mset_mset)
  then have s: "p \<in> set (get_list (by_stem r) (stem_key lower p))"
    using assms by (simp add: reg_ok_def index_ok_member)
  have dn: "distinct (map fst (by_name r))" and ds: "distinct (map fst (by_stem r))"
    using assms(1) by (simp_all add: reg_ok_def index_ok_iff)
  have cn: "mset (candidates (remove_from_map (by_name r) (name_key lower p) p)) + {#p#} = mset (candidates (by_name r))"
    by (rule candidates_remove_from_map [OF dn n])
  have cs: "mset (candidates (remove_from_map (by_stem r) (stem_key lower p) p)) + {#p#} = mset (candidates (by_stem r))"
    by (rule candidates_remove_from_map [OF ds s])
  show "mset (candidates (by_name (FileRegistry_unregister lower r p))) + {#p#} = mset (candidates (by_name r))"
    using cn by (simp add: FileRegistry_unregister_def Let_def name_key_def)
  have "mset (candidates (remove_from_map (by_name r) (name_key lower p) p)) + {#p#}
      = mset (candidates (remove_from_map (by_stem r) (stem_key lower p) p)) + {#p#}"
    using cn cs assms(1) by (simp add: reg_ok_def)
  then have "mset (candidates (remove_from_map (by_name r) (name_key lower p) p))
      = mset (candidates (remove_from_map (by_stem r) (stem_key lower p) p))"
    by simp
  then show "reg_ok lower (FileRegistry_unregister lower r p)"
    using assms(1)
    by (simp add: reg_ok_def FileRegistry_unregister_def Let_def index_ok_remove_from_map
        name_key_def stem_key_def)
qed

lemma hd_sort_in: "items \<noteq> [] \<Longrightarrow> hd (sort items) \<in> set items"
proof -
  assume "items \<noteq> []"
  then have "sort items \<noteq> []" by (metis length_0_conv length_sort)
  then have "hd (sort items) \<in> set (sort items)" by (rule hd_in_set)
  then show ?thesis by simp
qed

lemma take_first_ok:
  assumes "reg_ok lower r" and "items \<noteq> []" and "set items \<subseteq> set (candidates (by_name r))"
    and "take_first lower r items = (res, r')"
  shows "reg_ok lower r' \<and> mset (candidates (by_name r')) + mset (taken [res]) = mset (candidates (by_name r))"
proof -
  let ?p = "hd (sort items)"
  have "?p \<in> set (candidates (by_name r))" using assms(2,3) hd_sort_in by blast
  then show ?thesis
    using reg_ok_unregister [OF assms(1), of ?p] assms(4)
    by (auto simp: take_first_def Let_def taken_def)
qed

lemma stem_items_subset:
  "reg_ok lower r \<Longrightarrow> set (get_list (by_stem r) k) \<subseteq> set (candidates (by_name r))"
  using get_list_subset [of "by_stem r" k] by (metis reg_ok_def set_mset_mset)

lemma take_fuzzy_ok:
  assumes "reg_ok lower r" and "take_fuzzy lower score r c ms = (res, r')"
  shows "reg_ok lower r' \<and> mset (candidates (by_name r')) + mset (taken [res]) = mset (candidates (by_name r))"
  using assms(2) assms(1)
    take_first_ok [OF assms(1) _ get_list_subset, of _ res r']
    take_first_ok [OF assms(1) _ stem_items_subset [OF assms(1)], of _ res r']
  by (auto simp: take_fuzzy_def Let_def taken_def split: if_splits option.splits prod.splits)

lemma take_ok:
  assumes "reg_ok lower r" and "FileRegistry_take lower score r l ms = (res, r')"
  shows "reg_ok lower r' \<and> mset (candidates (by_name r')) + mset (taken [res]) = mset (candidates (by_name r))"
  using assms(2) assms(1)
    take_first_ok [OF assms(1) _ get_list_subset, of _ res r']
    take_first_ok [OF assms(1) _ stem_items_subset [OF assms(1)], of _ res r']
    take_fuzzy_ok [OF assms(1), of score _ ms res r']
  by (auto simp: FileRegistry_take_def Let_def taken_def split: if_splits)


lemma taken_Cons: "taken (res # out) = taken [res] @ taken out"
  by (simp add: taken_def)

lemma run_ops_conserves:
  assumes "reg_ok lower r" and "run_ops lower score r ops = (r', out)"
  shows "reg_ok lower r' \<and>
         mset (candidates (by_name r')) + mset (taken out) = mset (candidates (by_name r)) + mset (added ops)"
  using assms
proof (induction ops arbitrary: r r' out)
  case Nil
  then show ?case by (simp add: taken_def)
next
  case (Cons op ops)
  show ?case
  proof (cases op)
    case (Take l ms)
    obtain res r1 where t: "FileRegistry_take lower score r l ms = (res, r1)" by fastforce
    obtain r2 out2 where rest: "run_ops lower score r1 ops = (r2, out2)" by fastforce
    have eq: "r' = r2" "out = res # out2"
      using Cons.prems(2) Take t rest by simp_all
    have 1: "reg_ok lower r1" "mset (candidates (by_name r1)) + mset (taken [res]) = mset (candidates (by_name r))"
      using take_ok [OF Cons.prems(1) t] by simp_all
    have 2: "reg_ok lower r2" "mset (candidates (by_name r2)) + mset (taken out2) = mset (candidates (by_name r1)) + mset (added ops)"
      using Cons.IH [OF 1(1) rest] by simp_all
    have "mset (candidates (by_name r2)) + mset (taken out)
            = (mset (candidates (by_name r2)) + mset (taken out2)) + mset (taken [res])"
      unfolding eq taken_Cons [of res out2] by (simp add: ac_simps)
    also have "\<dots> = (mset (candidates (by_name r1)) + mset (added ops)) + mset (taken [res])"
      by (simp only: 2(2))
    also have "\<dots> = (mset (candidates (by_name r1)) + mset (taken [res])) + mset (added ops)"
      by (simp add: ac_simps)
    also have "\<dots> = mset (candidates (by_name r)) + mset (added ops)"
      by (simp only: 1(2))
    finally show ?thesis
      using 2(1) eq Take by simp
  next
    case (Add p)
    have 1: "reg_ok lower (FileRegistry_add lower r p)"
      "mset (candidates (by_name (FileRegistry_add lower r p))) = mset (candidates (by_name r)) + {#p#}"
      using reg_ok_register [OF Cons.prems(1), of p] by (simp_all add: FileRegistry_add_def)
    have "run_ops lower score (FileRegistry_add lower r p) ops = (r', out)"
      using Cons.prems(2) Add by simp
    from Cons.IH [OF 1(1) this] show ?thesis using 1(2) Add by simp
  qed
qed

lemma reg_ok_foldl:
  "reg_ok lower r \<Longrightarrow> reg_ok lower (foldl (FileRegistry_register lower) r files) \<and>
     mset (candidates (by_name (foldl (FileRegistry_register lower) r files))) = mset (candidates (by_name r)) + mset files"
proof (induction files arbitrary: r)
  case Nil
  then show ?case by simp
next
  case (Cons f files)
  from Cons.IH [OF reg_ok_register(1) [OF Cons.prems, of f]] reg_ok_register(2) [OF Cons.prems, of f]
  show ?case by simp
qed

lemma reg_ok_empty: "reg_ok lower \<lparr>by_name = [], by_stem = []\<rparr>"
  by (simp add: reg_ok_def index_ok_def candidates_def)

lemma reg_ok_init:
  "reg_ok lower (FileRegistry_init lower files)"
  "mset (candidates (by_name (FileRegistry_init lower files))) = mset files"
  using reg_ok_foldl [OF reg_ok_empty, of lower files]
  by (simp_all add: FileRegistry_init_def candidates_def)

text \<open>
  C1 (as amended). Start from the registry of a pool \<open>files\<close> and run any sequence of
  \<^verbatim>\<open>take\<close> and \<^verbatim>\<open>add\<close> calls. Then the candidates left in the registry together with
  the candidates the successful takes returned are exactly the pool together with the
  candidates added (as multisets); both indices hold the same candidates; the registry
  holds \<open>M - N + K\<close> candidates after \<open>N\<close> successful takes and \<open>K\<close> adds on a pool of
  \<open>M\<close>; a candidate is handed out at most as often as it was in the pool or added back;
  and with a pool of distinct files and no add, no two takes return the same candidate.
\<close>

theorem registry_conserves_candidates:
  "run_ops lower score (FileRegistry_init lower files) ops = (r', out) \<Longrightarrow>
     mset (candidates (by_name r')) + mset (taken out) = mset files + mset (added ops)
   \<and> mset (candidates (by_stem r')) = mset (candidates (by_name r'))
   \<and> length (candidates (by_name r')) + length (taken out) = length files + length (added ops)
   \<and> count (mset (taken out)) p \<le> count (mset files) p + count (mset (added ops)) p
   \<and> (distinct files \<and> added ops = [] \<longrightarrow> distinct (taken out))"
proof -
  assume run: "run_ops lower score (FileRegistry_init lower files) ops = (r', out)"
  have ok: "reg_ok lower r'"
    and c: "mset (candidates (by_name r')) + mset (taken out) = mset files + mset (added ops)"
    using run_ops_conserves [OF reg_ok_init(1) run] reg_ok_init(2) [of lower files] by simp_all
  have s: "mset (candidates (by_stem r')) = mset (candidates (by_name r'))"
    using ok by (simp add: reg_ok_def)
  have "size (mset (candidates (by_name r')) + mset (taken out)) = size (mset files + mset (added ops))"
    using c by simp
  then have l: "length (candidates (by_name r')) + length (taken out) = length files + length (added ops)"
    by simp
  have n: "count (mset (taken out)) a \<le> count (mset files) a + count (mset (added ops)) a" for a
  proof -
    have "count (mset (candidates (by_name r')) + mset (taken out)) a = count (mset files + mset (added ops)) a"
      using c by simp
    then show ?thesis by simp
  qed
  have d: "distinct (taken out)" if df: "distinct files" and na: "added ops = []"
    unfolding distinct_count_atmost_1
  proof (intro allI)
    fix a
    have "count (mset (taken out)) a \<le> count (mset files) a"
      using n [of a] na by simp
    moreover have "count (mset files) a \<le> 1"
      using df by (simp add: distinct_count_atmost_1)
    ultimately have le: "count (mset (taken out)) a \<le> 1" by simp
    show "count (mset (taken out)) a = (if a \<in> set (taken out) then 1 else 0)"
    proof (cases "a \<in> set (taken out)")
      case True
      then have "count (mset (taken out)) a > 0"
        by (simp add: count_greater_zero_iff)
      with le have "count (mset (taken out)) a = 1" by linarith
      then show ?thesis using True by (simp only: if_True)
    next
      case False
      then have "count (mset (taken out)) a = 0"
        by (simp add: count_eq_zero_iff)
      then show ?thesis using False by (simp only: if_False)
    qed
  qed
  from c s l n [of p] d show ?thesis by blast
qed

theorem registry_conserves_candidates_witness:
  "run_ops ascii_lower (\<lambda>a b. 0)
       (FileRegistry_init ascii_lower [Path (lit ''/d/a.mp4''), Path (lit ''/d/b.mov'')])
       [Take (lit ''a.mp4'') 90, Take (lit ''a.mp4'') 90, Add (Path (lit ''/d/c.mp4'')),
        Take (lit ''B'') 90]
     = (\<lparr>by_name = [(lit ''c.mp4'', [[[47], lit ''d'', lit ''c.mp4'']])],
         by_stem = [(lit ''c'', [[[47], lit ''d'', lit ''c.mp4'']])]\<rparr>,
        [Some [[47], lit ''d'', lit ''a.mp4''], None, Some [[47], lit ''d'', lit ''b.mov'']])
   \<and> length (candidates [(lit ''c.mp4'', [[[47], lit ''d'', lit ''c.mp4'']])]) + 2 = 2 + 1"
proof -
  let ?ops = "[Take (lit ''a.mp4'') 90, Take (lit ''a.mp4'') 90, Add (Path (lit ''/d/c.mp4'')),
        Take (lit ''B'') 90]"
  let ?r = "\<lparr>by_name = [(lit ''c.mp4'', [[[47], lit ''d'', lit ''c.mp4'']])],
         by_stem = [(lit ''c'', [[[47], lit ''d'', lit ''c.mp4'']])]\<rparr>"
  let ?out = "[Some [[47], lit ''d'', lit ''a.mp4''], None, Some [[47], lit ''d'', lit ''b.mov'']]"
  have e: "run_ops ascii_lower (\<lambda>a b. 0)
             (FileRegistry_init ascii_lower [Path (lit ''/d/a.mp4''), Path (lit ''/d/b.mov'')]) ?ops
           = (?r, ?out)"
    by (simp add: path_simps reg_simps Let_def)
  have "length (candidates (by_name ?r)) + length (taken ?out)
          = length [Path (lit ''/d/a.mp4''), Path (lit ''/d/b.mov'')] + length (added ?ops)"
    using registry_conserves_candidates [OF e] by blast
  then have "length (candidates [(lit ''c.mp4'', [[[47], lit ''d'', lit ''c.mp4'']])]) + 2 = 2 + 1"
    by (simp add: taken_def)
  with e show ?thesis by blast
qed

text \<open>
  C1 as the specification states it fails: a candidate that a row takes and adds back (an
  unchanged name, a conflict, a failed rename) is in the registry again for the rows after
  it. With the one file \<^verbatim>\<open>/d/a.mp4\<close> and two rows that both look for \<^verbatim>\<open>a.mp4\<close> and ask for
  no new name, both rows receive that file.
\<close>

theorem two_rows_receive_the_same_candidate:
  "snd (resolve ascii_lower (\<lambda>a b. 0) list_exists list_rename 90
         (FileRegistry_init ascii_lower [Path (lit ''/d/a.mp4'')], [Path (lit ''/d/a.mp4'')])
         [(1, [], lit ''a.mp4''), (2, [], lit ''a.mp4'')])
     = ([(1, Unchanged, Some [[47], lit ''d'', lit ''a.mp4'']),
         (2, Unchanged, Some [[47], lit ''d'', lit ''a.mp4''])], None)"
  by (simp add: path_simps reg_simps pass_simps Let_def)


section \<open>Lookups that need no search\<close>

lemma str_strip_empty_iff: "str_strip s = [] \<longleftrightarrow> (\<forall>c \<in> set s. is_space c)"
proof -
  have "str_strip s = [] \<longleftrightarrow> (\<forall>c \<in> set (dropWhile is_space s). is_space c)"
    by (simp add: str_strip_def dropWhile_eq_Nil_conv)
  also have "\<dots> \<longleftrightarrow> dropWhile is_space s = []"
  proof
    assume a: "\<forall>c \<in> set (dropWhile is_space s). is_space c"
    show "dropWhile is_space s = []"
    proof (rule ccontr)
      assume ne: "dropWhile is_space s \<noteq> []"
      then have "\<not> is_space (hd (dropWhile is_space s))" by (rule hd_dropWhile)
      moreover have "hd (dropWhile is_space s) \<in> set (dropWhile is_space s)" using ne by simp
      ultimately show False using a by blast
    qed
  qed (auto dest: set_dropWhileD)
  also have "\<dots> \<longleftrightarrow> (\<forall>c \<in> set s. is_space c)"
    by (simp add: dropWhile_eq_Nil_conv)
  finally show ?thesis .
qed

text \<open>
  C9. A lookup string whose basename is empty or has only whitespace (the whitespace of
  \<^verbatim>\<open>str.strip\<close>, the no-break space and the other Unicode blanks included) makes \<^verbatim>\<open>take\<close>
  return \<^verbatim>\<open>None\<close> at once: the registry is returned as it was, both indices included,
  whatever the scorer, the threshold and the case tables.
\<close>

theorem take_blank_lookup:
  "\<forall>c \<in> set (Path_name (Path lookup_name)). is_space c \<Longrightarrow>
     FileRegistry_take lower score r lookup_name min_score = (None, r)"
  by (simp add: FileRegistry_take_def str_strip_empty_iff)

theorem take_blank_lookup_witness:
  "Path_name (Path (lit ''clips/'' @ [32, 160, 12288])) = [32, 160, 12288]
   \<and> FileRegistry_take ascii_lower (\<lambda>a b. 100) (FileRegistry_init ascii_lower [Path (lit ''/d/a.mp4'')])
         (lit ''clips/'' @ [32, 160, 12288]) 0
       = (None, FileRegistry_init ascii_lower [Path (lit ''/d/a.mp4'')])
   \<and> FileRegistry_take ascii_lower (\<lambda>a b. 100) (FileRegistry_init ascii_lower [Path (lit ''/d/a.mp4'')]) [] 0
       = (None, FileRegistry_init ascii_lower [Path (lit ''/d/a.mp4'')])"
proof -
  have n: "Path_name (Path (lit ''clips/'' @ [32, 160, 12288])) = [32, 160, 12288]"
    "Path_name (Path []) = []"
    by (simp_all add: path_simps)
  have b: "\<forall>c \<in> set [32, 160, 12288]. is_space c"
    by (simp add: is_space_def)
  show ?thesis
    using take_blank_lookup [of "lit ''clips/'' @ [32, 160, 12288]" ascii_lower "\<lambda>a b. 100"
        "FileRegistry_init ascii_lower [Path (lit ''/d/a.mp4'')]" 0]
      take_blank_lookup [of "[]" ascii_lower "\<lambda>a b. 100"
        "FileRegistry_init ascii_lower [Path (lit ''/d/a.mp4'')]" 0] n b
    by simp
qed

lemma hd_sort_least: "q \<in> set items \<Longrightarrow> hd (sort items) \<le> q"
proof -
  assume q: "q \<in> set items"
  then have ne: "sort items \<noteq> []" by (metis empty_iff empty_set set_sort)
  then obtain x xs where xs: "sort items = x # xs" by (cases "sort items") auto
  have "sorted (x # xs)" using sorted_sort [of items] xs by simp
  moreover have "q \<in> set (x # xs)" using q xs by (metis set_sort)
  ultimately show ?thesis using xs by auto
qed

text \<open>
  C2. \<^verbatim>\<open>str.lower\<close> maps the empty string, and no other, to the empty string; let
  \<open>lower\<close> do so. In a registry of named files, when the lowered, stripped basename of the
  lookup string is a key of \<^verbatim>\<open>by_name\<close> with candidates, \<^verbatim>\<open>take\<close> returns the least path
  of that key's list in the order of paths and unregisters it. The returned candidate is
  one of that list, its own lowered name is the key, and the result does not depend on the
  scorer or on the threshold: the stem tier and the fuzzy tier are not consulted. The
  lowering is that of \<^verbatim>\<open>str.lower\<close> on every letter, whatever the case tables are.
\<close>

theorem take_exact_name_first:
  assumes "reg_ok lower r"
    and "\<forall>p \<in> set (candidates (by_name r)). Path_name p \<noteq> []"
    and "\<forall>s. (lower s = []) = (s = [])"
    and "key = lower (str_strip (Path_name (Path lookup_name)))"
    and "get_list (by_name r) key \<noteq> []"
  shows "FileRegistry_take lower score r lookup_name min_score
           = (Some (hd (sort (get_list (by_name r) key))),
              FileRegistry_unregister lower r (hd (sort (get_list (by_name r) key))))
         \<and> hd (sort (get_list (by_name r) key)) \<in> set (get_list (by_name r) key)
         \<and> (\<forall>q \<in> set (get_list (by_name r) key). hd (sort (get_list (by_name r) key)) \<le> q)
         \<and> lower (Path_name (hd (sort (get_list (by_name r) key)))) = key"
proof -
  let ?items = "get_list (by_name r) key"
  let ?p = "hd (sort ?items)"
  have mem: "?p \<in> set ?items" using assms(5) by (rule hd_sort_in)
  then have k: "name_key lower ?p = key"
    using assms(1) index_ok_get_list [of "name_key lower" "by_name r" ?p key]
    by (simp add: reg_ok_def)
  have "?p \<in> set (candidates (by_name r))" using mem get_list_subset by blast
  then have "Path_name ?p \<noteq> []" using assms(2) by blast
  then have "lower (Path_name ?p) \<noteq> []" using assms(3) by blast
  then have "key \<noteq> []" using k by (simp add: name_key_def)
  then have "str_strip (Path_name (Path lookup_name)) \<noteq> []"
    using assms(3,4) by blast
  then have "FileRegistry_take lower score r lookup_name min_score
               = (Some ?p, FileRegistry_unregister lower r ?p)"
    using assms(4,5) by (simp add: FileRegistry_take_def Let_def take_first_def)
  then show ?thesis using mem k hd_sort_least [of _ ?items] by (simp add: name_key_def)
qed

theorem take_exact_name_first_witness:
  "get_list (by_name (FileRegistry_init ascii_lower
       [Path (lit ''/s/A.m''), Path (lit ''/A.m''), Path (lit ''/a.n'')])) (lit ''a.m'')
     = [[[47], lit ''s'', lit ''A.m''], [[47], lit ''A.m'']]
   \<and> fst (FileRegistry_take ascii_lower (\<lambda>a b. 100)
            (FileRegistry_init ascii_lower [Path (lit ''/s/A.m''), Path (lit ''/A.m''), Path (lit ''/a.n'')])
            (lit ''x/a.M'' @ [160]) 0)
       = Some [[47], lit ''A.m'']"
proof -
  let ?r = "FileRegistry_init ascii_lower [Path (lit ''/s/A.m''), Path (lit ''/A.m''), Path (lit ''/a.n'')]"
  have named: "\<forall>p \<in> set (candidates (by_name ?r)). Path_name p \<noteq> []"
    by (simp add: path_simps reg_simps candidates_def Let_def)
  have low: "\<forall>s. (ascii_lower s = []) = (s = [])"
    by (simp add: ascii_lower_def)
  have k: "lit ''a.m'' = ascii_lower (str_strip (Path_name (Path (lit ''x/a.M'' @ [160]))))"
    by (simp add: path_simps reg_simps)
  have g: "get_list (by_name ?r) (lit ''a.m'') = [[[47], lit ''s'', lit ''A.m''], [[47], lit ''A.m'']]"
    by (simp add: path_simps reg_simps Let_def)
  have ne: "get_list (by_name ?r) (lit ''a.m'') \<noteq> []"
    unfolding g by simp
  have h: "hd (sort [[[47], lit ''s'', lit ''A.m''], [[47], lit ''A.m'']]) = [[47], lit ''A.m'']"
    by (simp add: lit_def)
  have "fst (FileRegistry_take ascii_lower (\<lambda>a b. 100) ?r (lit ''x/a.M'' @ [160]) 0)
          = Some (hd (sort (get_list (by_name ?r) (lit ''a.m''))))"
    using take_exact_name_first [OF reg_ok_init(1) named low k ne, of "\<lambda>a b. 100" 0] by simp
  then show ?thesis unfolding g h using g by simp
qed


section \<open>Rows of the rename pass\<close>

lemma get_list_setdefault_append:
  "get_list (setdefault_append m k p) k' = (if k' = k then get_list m k @ [p] else get_list m k')"
  by (simp add: setdefault_append_def get_list_update)

lemma get_list_remove_from_map:
  "get_list (remove_from_map m k p) k' = (if k' = k then remove1 p (get_list m k) else get_list m k')"
  by (auto simp: remove_from_map_def Let_def get_list_update get_list_delete remove1_idem)

lemma add_available:
  "p \<in> set (get_list (by_name (FileRegistry_add lower r p)) (lower (Path_name p)))"
  "p \<in> set (get_list (by_stem (FileRegistry_add lower r p)) (lower (Path_stem p)))"
  by (simp_all add: FileRegistry_add_def FileRegistry_register_def Let_def get_list_setdefault_append)

lemma take_first_Some:
  "take_first lower r items = (res, r') \<Longrightarrow>
     res = Some (hd (sort items)) \<and> r' = FileRegistry_unregister lower r (hd (sort items))"
  by (auto simp: take_first_def Let_def)

lemma take_Some_unregister:
  assumes "reg_ok lower r" and "FileRegistry_take lower score r l ms = (Some p, r')"
  shows "r' = FileRegistry_unregister lower r p \<and> p \<in> set (candidates (by_name r))"
proof -
  have n: "items \<noteq> [] \<Longrightarrow> set items \<subseteq> set (candidates (by_name r)) \<Longrightarrow>
           take_first lower r items = (Some p, r') \<Longrightarrow> ?thesis" for items
    using hd_sort_in [of items] by (auto dest!: take_first_Some)
  show ?thesis
    using assms(2) n [OF _ get_list_subset] n [OF _ stem_items_subset [OF assms(1)]]
    by (auto simp: FileRegistry_take_def take_fuzzy_def Let_def split: if_splits option.splits prod.splits)
qed

lemma readd_same_candidates:
  assumes "reg_ok lower r" and "p \<in> set (candidates (by_name r))"
  shows "mset (get_list (by_name (FileRegistry_add lower (FileRegistry_unregister lower r p) p)) k)
           = mset (get_list (by_name r) k)"
    and "mset (get_list (by_stem (FileRegistry_add lower (FileRegistry_unregister lower r p) p)) k)
           = mset (get_list (by_stem r) k)"
proof -
  have n: "p \<in> set (get_list (by_name r) (name_key lower p))"
    using assms by (simp add: reg_ok_def index_ok_member)
  have "p \<in> set (candidates (by_stem r))"
    using assms by (metis reg_ok_def set_mset_mset)
  then have s: "p \<in> set (get_list (by_stem r) (stem_key lower p))"
    using assms by (simp add: reg_ok_def index_ok_member)
  show "mset (get_list (by_name (FileRegistry_add lower (FileRegistry_unregister lower r p) p)) k)
          = mset (get_list (by_name r) k)"
    using n
    by (simp add: FileRegistry_add_def FileRegistry_register_def FileRegistry_unregister_def Let_def
        get_list_setdefault_append get_list_remove_from_map name_key_def)
  show "mset (get_list (by_stem (FileRegistry_add lower (FileRegistry_unregister lower r p) p)) k)
          = mset (get_list (by_stem r) k)"
    using s
    by (simp add: FileRegistry_add_def FileRegistry_register_def FileRegistry_unregister_def Let_def
        get_list_setdefault_append get_list_remove_from_map stem_key_def)
qed

lemma resolve_row_no_raise:
  assumes "\<forall>f p. \<exists>b. fs_exists f p = Inr b"
  shows "\<exists>res. snd (resolve_row lower score fs_exists fs_rename thr st rw) = Inr res"
proof -
  obtain registry fs where st: "st = (registry, fs)" by (cases st)
  obtain row_idx new_name match_title where rw: "rw = (row_idx, new_name, match_title)"
    by (cases rw)
  obtain res registry' where t:
    "FileRegistry_take lower score registry match_title thr = (res, registry')"
    by (cases "FileRegistry_take lower score registry match_title thr")
  show ?thesis
  proof (cases res)
    case None
    then show ?thesis using st rw t by (simp add: resolve_row_def)
  next
    case (Some source)
    obtain b where b: "fs_exists fs (target_path_of new_name source) = Inr b"
      using assms by blast
    show ?thesis
      using st rw t Some b
      by (cases b; cases "fs_rename fs source (target_path_of new_name source)")
         (simp_all add: resolve_row_def Let_def)
  qed
qed

lemma resolve_every_row:
  assumes "\<forall>f p. \<exists>b. fs_exists f p = Inr b"
  shows "map fst (fst (snd (resolve lower score fs_exists fs_rename thr st rows))) = map fst rows
         \<and> snd (snd (resolve lower score fs_exists fs_rename thr st rows)) = None"
proof (induction rows arbitrary: st)
  case Nil
  then show ?case by simp
next
  case (Cons rw rows)
  obtain st' res where r: "resolve_row lower score fs_exists fs_rename thr st rw = (st', Inr res)"
    using resolve_row_no_raise [OF assms, of lower score fs_rename thr st rw]
    by (cases "resolve_row lower score fs_exists fs_rename thr st rw") auto
  obtain st'' out err where rest:
    "resolve lower score fs_exists fs_rename thr st' rows = (st'', out, err)"
    by (cases "resolve lower score fs_exists fs_rename thr st' rows")
  have "resolve lower score fs_exists fs_rename thr st (rw # rows) = (st'', (fst rw, res) # out, err)"
    using r rest by simp
  then show ?case using Cons.IH [of st'] rest by simp
qed

lemma resolve_Cons:
  assumes "resolve_row lower score fs_exists fs_rename thr st rw = (st', Inr res)"
  shows "fst (resolve lower score fs_exists fs_rename thr st (rw # rows))
           = fst (resolve lower score fs_exists fs_rename thr st' rows)"
    and "fst (snd (resolve lower score fs_exists fs_rename thr st (rw # rows)))
           = (fst rw, res) # fst (snd (resolve lower score fs_exists fs_rename thr st' rows))"
    and "snd (snd (resolve lower score fs_exists fs_rename thr st (rw # rows)))
           = snd (snd (resolve lower score fs_exists fs_rename thr st' rows))"
proof -
  obtain st'' out err where rest:
    "resolve lower score fs_exists fs_rename thr st' rows = (st'', out, err)"
    by (cases "resolve lower score fs_exists fs_rename thr st' rows")
  have "resolve lower score fs_exists fs_rename thr st (rw # rows) = (st'', (fst rw, res) # out, err)"
    using assms rest by simp
  then show "fst (resolve lower score fs_exists fs_rename thr st (rw # rows))
           = fst (resolve lower score fs_exists fs_rename thr st' rows)"
    and "fst (snd (resolve lower score fs_exists fs_rename thr st (rw # rows)))
           = (fst rw, res) # fst (snd (resolve lower score fs_exists fs_rename thr st' rows))"
    and "snd (snd (resolve lower score fs_exists fs_rename thr st (rw # rows)))
           = snd (snd (resolve lower score fs_exists fs_rename thr st' rows))"
    using rest by simp_all
qed

text \<open>
  C8 (as amended). When the path a row asks for is the path of the candidate it took, the
  row is \<^verbatim>\<open>Unchanged\<close>: nothing is renamed, the file system is the one before the row,
  and the candidate is added back, so that under every key both indices hold the same
  candidates as before the row, as multisets. The order of the candidates is not kept.
\<close>

theorem unchanged_row_keeps_candidates:
  assumes "reg_ok lower registry"
    and "FileRegistry_take lower score registry match_title thr = (Some source, registry')"
    and "target_path_of new_name source = source"
  shows "resolve_row lower score fs_exists fs_rename thr (registry, fs) (row_idx, new_name, match_title)
           = ((FileRegistry_add lower registry' source, fs), Inr (Unchanged, Some source))
         \<and> (\<forall>k. mset (get_list (by_name (FileRegistry_add lower registry' source)) k)
                   = mset (get_list (by_name registry) k))
         \<and> (\<forall>k. mset (get_list (by_stem (FileRegistry_add lower registry' source)) k)
                   = mset (get_list (by_stem registry) k))"
proof -
  have "resolve_row lower score fs_exists fs_rename thr (registry, fs) (row_idx, new_name, match_title)
           = ((FileRegistry_add lower registry' source, fs), Inr (Unchanged, Some source))"
    using assms(2,3) by (simp add: resolve_row_def Let_def)
  moreover have "registry' = FileRegistry_unregister lower registry source"
    and "source \<in> set (candidates (by_name registry))"
    using take_Some_unregister [OF assms(1,2)] by simp_all
  ultimately show ?thesis
    using readd_same_candidates [OF assms(1), of source] by simp
qed

theorem unchanged_row_keeps_candidates_witness:
  "resolve_row ascii_lower (\<lambda>a b. 0) list_exists list_rename 90
       (FileRegistry_init ascii_lower [Path (lit ''/a.m''), Path (lit ''/s/a.m'')],
        [Path (lit ''/a.m''), Path (lit ''/s/a.m'')])
       (1, [], lit ''a.m'')
     = ((FileRegistry_add ascii_lower
           \<lparr>by_name = [(lit ''a.m'', [[[47], lit ''s'', lit ''a.m'']])],
            by_stem = [(lit ''a'', [[[47], lit ''s'', lit ''a.m'']])]\<rparr> [[47], lit ''a.m''],
         [Path (lit ''/a.m''), Path (lit ''/s/a.m'')]),
        Inr (Unchanged, Some [[47], lit ''a.m'']))
   \<and> mset (get_list (by_name (FileRegistry_add ascii_lower
           \<lparr>by_name = [(lit ''a.m'', [[[47], lit ''s'', lit ''a.m'']])],
            by_stem = [(lit ''a'', [[[47], lit ''s'', lit ''a.m'']])]\<rparr> [[47], lit ''a.m''])) (lit ''a.m''))
       = mset (get_list (by_name (FileRegistry_init ascii_lower
            [Path (lit ''/a.m''), Path (lit ''/s/a.m'')])) (lit ''a.m''))"
proof -
  have t: "FileRegistry_take ascii_lower (\<lambda>a b. 0)
             (FileRegistry_init ascii_lower [Path (lit ''/a.m''), Path (lit ''/s/a.m'')]) (lit ''a.m'') 90
             = (Some [[47], lit ''a.m''],
                \<lparr>by_name = [(lit ''a.m'', [[[47], lit ''s'', lit ''a.m'']])],
                 by_stem = [(lit ''a'', [[[47], lit ''s'', lit ''a.m'']])]\<rparr>)"
    by (simp add: path_simps reg_simps Let_def)
  have tp: "target_path_of [] [[47], lit ''a.m''] = [[47], lit ''a.m'']"
    by (simp add: path_simps pass_simps str_strip_def is_space_def Let_def)
  show ?thesis
    using unchanged_row_keeps_candidates [OF reg_ok_init(1) t tp,
        of list_exists list_rename "[Path (lit ''/a.m''), Path (lit ''/s/a.m'')]" 1]
    by blast
qed

text \<open>
  C8 as the specification states it fails: the registry after an \<^verbatim>\<open>Unchanged\<close> row is
  not the registry before it. \<^verbatim>\<open>take\<close> removes the candidate and \<^verbatim>\<open>add\<close> appends it, so
  it moves to the end of its key's list, and a key that lost its only candidate moves to
  the end of the keys. With \<^verbatim>\<open>/a.m\<close> and \<^verbatim>\<open>/s/a.m\<close> the list of the key \<^verbatim>\<open>a.m\<close> is
  reversed. The order of the keys is what \<^verbatim>\<open>_take_fuzzy\<close> breaks ties by: with \<^verbatim>\<open>/x.m\<close>
  and \<^verbatim>\<open>/y.m\<close> and a scorer that gives 100 to a key that is one of the words of the
  query, the lookup \<^verbatim>\<open>x.m y.m\<close> takes \<^verbatim>\<open>/x.m\<close> before an \<^verbatim>\<open>Unchanged\<close> row on \<^verbatim>\<open>x.m\<close>
  and \<^verbatim>\<open>/y.m\<close> after it.
\<close>

theorem unchanged_row_reorders_registry:
  "resolve_row ascii_lower (\<lambda>a b. 0) list_exists list_rename 90
       (FileRegistry_init ascii_lower [Path (lit ''/a.m''), Path (lit ''/s/a.m'')],
        [Path (lit ''/a.m''), Path (lit ''/s/a.m'')])
       (1, [], lit ''a.m'')
     = ((\<lparr>by_name = [(lit ''a.m'', [[[47], lit ''s'', lit ''a.m''], [[47], lit ''a.m'']])],
          by_stem = [(lit ''a'', [[[47], lit ''s'', lit ''a.m''], [[47], lit ''a.m'']])]\<rparr>,
         [[[47], lit ''a.m''], [[47], lit ''s'', lit ''a.m'']]),
        Inr (Unchanged, Some [[47], lit ''a.m'']))
   \<and> FileRegistry_init ascii_lower [Path (lit ''/a.m''), Path (lit ''/s/a.m'')]
     = \<lparr>by_name = [(lit ''a.m'', [[[47], lit ''a.m''], [[47], lit ''s'', lit ''a.m'']])],
        by_stem = [(lit ''a'', [[[47], lit ''a.m''], [[47], lit ''s'', lit ''a.m'']])]\<rparr>
   \<and> fst (fst (resolve_row ascii_lower (\<lambda>a b. 0) list_exists list_rename 90
       (FileRegistry_init ascii_lower [Path (lit ''/a.m''), Path (lit ''/s/a.m'')],
        [Path (lit ''/a.m''), Path (lit ''/s/a.m'')])
       (1, [], lit ''a.m''))) \<noteq> FileRegistry_init ascii_lower [Path (lit ''/a.m''), Path (lit ''/s/a.m'')]
   \<and> fst (FileRegistry_take ascii_lower (\<lambda>q c. if c \<in> set (str_split q) then 100 else 0)
            (FileRegistry_init ascii_lower [Path (lit ''/x.m''), Path (lit ''/y.m'')])
            (lit ''x.m y.m'') 90)
       = Some [[47], lit ''x.m'']
   \<and> fst (FileRegistry_take ascii_lower (\<lambda>q c. if c \<in> set (str_split q) then 100 else 0)
            (fst (fst (resolve_row ascii_lower (\<lambda>q c. if c \<in> set (str_split q) then 100 else 0)
               list_exists list_rename 90
               (FileRegistry_init ascii_lower [Path (lit ''/x.m''), Path (lit ''/y.m'')],
                [Path (lit ''/x.m''), Path (lit ''/y.m'')])
               (1, [], lit ''x.m'')))) (lit ''x.m y.m'') 90)
       = Some [[47], lit ''y.m'']"
  by (simp add: path_simps reg_simps pass_simps str_split.simps Let_def)

text \<open>
  C3. When the path a row asks for is not the candidate's own path (that row is the
  \<^verbatim>\<open>Unchanged\<close> one, which the loop tests first) and it exists, the row is a
  \<^verbatim>\<open>Conflict\<close>: \<^verbatim>\<open>rename\<close> is not called and the file system is the one before the
  row, so the existing file and the candidate are untouched, and the candidate is added
  back to the registry, where both indices hold it under its own keys for the rows after.
\<close>

theorem conflict_row_leaves_files:
  assumes "FileRegistry_take lower score registry match_title thr = (Some source, registry')"
    and "target_path_of new_name source \<noteq> source"
    and "fs_exists fs (target_path_of new_name source) = Inr True"
  shows "resolve_row lower score fs_exists fs_rename thr (registry, fs) (row_idx, new_name, match_title)
           = ((FileRegistry_add lower registry' source, fs), Inr (Conflict, Some source))
         \<and> source \<in> set (get_list (by_name (FileRegistry_add lower registry' source)) (lower (Path_name source)))
         \<and> source \<in> set (get_list (by_stem (FileRegistry_add lower registry' source)) (lower (Path_stem source)))"
  using assms add_available [of source lower registry']
  by (simp add: resolve_row_def Let_def)

theorem conflict_row_leaves_files_witness:
  "resolve_row ascii_lower (\<lambda>a b. 0) list_exists list_rename 90
       (FileRegistry_init ascii_lower [Path (lit ''/a.m'')], [Path (lit ''/a.m''), Path (lit ''/b.m'')])
       (1, lit ''b'', lit ''a.m'')
     = ((FileRegistry_add ascii_lower \<lparr>by_name = [], by_stem = []\<rparr> [[47], lit ''a.m''],
         [Path (lit ''/a.m''), Path (lit ''/b.m'')]),
        Inr (Conflict, Some [[47], lit ''a.m'']))
   \<and> [[47], lit ''a.m''] \<in> set (get_list (by_name (FileRegistry_add ascii_lower
         \<lparr>by_name = [], by_stem = []\<rparr> [[47], lit ''a.m''])) (ascii_lower (Path_name [[47], lit ''a.m''])))"
proof -
  have t: "FileRegistry_take ascii_lower (\<lambda>a b. 0) (FileRegistry_init ascii_lower [Path (lit ''/a.m'')])
             (lit ''a.m'') 90
             = (Some [[47], lit ''a.m''], \<lparr>by_name = [], by_stem = []\<rparr>)"
    by (simp add: path_simps reg_simps Let_def)
  have tp: "target_path_of (lit ''b'') [[47], lit ''a.m''] \<noteq> [[47], lit ''a.m'']"
    by (simp add: path_simps pass_simps str_strip_def is_space_def Let_def)
  have ex: "list_exists [Path (lit ''/a.m''), Path (lit ''/b.m'')]
              (target_path_of (lit ''b'') [[47], lit ''a.m'']) = Inr True"
    by (simp add: path_simps pass_simps str_strip_def is_space_def Let_def)
  show ?thesis
    using conflict_row_leaves_files [OF t tp, of list_exists
        "[Path (lit ''/a.m''), Path (lit ''/b.m'')]", OF ex, of list_rename 1]
    by blast
qed

text \<open>
  C5. When \<^verbatim>\<open>exists\<close> has answered no and the rename of a row raises, the row is an
  \<^verbatim>\<open>Error\<close>, the candidate it took is added back to the registry, where both indices hold
  it under its own keys, and the pass goes on: what the pass does on the row and the rows
  after it is the \<^verbatim>\<open>Error\<close> outcome followed by what the pass does on the rows after it
  from the registry with the candidate back in it and the file system as it was. The
  failed rename ends nothing. What can still end the pass is \<^verbatim>\<open>exists\<close> raising on a later
  row, since that call is outside the \<^verbatim>\<open>try\<close>; on a file system where \<^verbatim>\<open>exists\<close> always
  answers, every row of the table has its outcome and the pass ends without an exception.
\<close>

theorem failed_rename_row_is_error:
  assumes "FileRegistry_take lower score registry match_title thr = (Some source, registry')"
    and "target_path_of new_name source \<noteq> source"
    and "fs_exists fs (target_path_of new_name source) = Inr False"
    and "fs_rename fs source (target_path_of new_name source) = None"
  shows "resolve_row lower score fs_exists fs_rename thr (registry, fs) (row_idx, new_name, match_title)
           = ((FileRegistry_add lower registry' source, fs), Inr (Error, Some source))
         \<and> source \<in> set (get_list (by_name (FileRegistry_add lower registry' source)) (lower (Path_name source)))
         \<and> source \<in> set (get_list (by_stem (FileRegistry_add lower registry' source)) (lower (Path_stem source)))
         \<and> fst (snd (resolve lower score fs_exists fs_rename thr (registry, fs)
                        ((row_idx, new_name, match_title) # rows)))
             = (row_idx, Error, Some source)
               # fst (snd (resolve lower score fs_exists fs_rename thr
                             (FileRegistry_add lower registry' source, fs) rows))
         \<and> snd (snd (resolve lower score fs_exists fs_rename thr (registry, fs)
                        ((row_idx, new_name, match_title) # rows)))
             = snd (snd (resolve lower score fs_exists fs_rename thr
                           (FileRegistry_add lower registry' source, fs) rows))
         \<and> fst (resolve lower score fs_exists fs_rename thr (registry, fs)
                   ((row_idx, new_name, match_title) # rows))
             = fst (resolve lower score fs_exists fs_rename thr
                      (FileRegistry_add lower registry' source, fs) rows)
         \<and> ((\<forall>f p. \<exists>b. fs_exists f p = Inr b) \<longrightarrow>
              map fst (fst (snd (resolve lower score fs_exists fs_rename thr (registry, fs)
                                   ((row_idx, new_name, match_title) # rows))))
                = row_idx # map fst rows
              \<and> snd (snd (resolve lower score fs_exists fs_rename thr (registry, fs)
                             ((row_idx, new_name, match_title) # rows))) = None)"
proof -
  have r: "resolve_row lower score fs_exists fs_rename thr (registry, fs) (row_idx, new_name, match_title)
           = ((FileRegistry_add lower registry' source, fs), Inr (Error, Some source))"
    using assms by (simp add: resolve_row_def Let_def)
  have av: "source \<in> set (get_list (by_name (FileRegistry_add lower registry' source)) (lower (Path_name source)))"
    "source \<in> set (get_list (by_stem (FileRegistry_add lower registry' source)) (lower (Path_stem source)))"
    by (rule add_available)+
  have c: "fst (snd (resolve lower score fs_exists fs_rename thr (registry, fs)
                        ((row_idx, new_name, match_title) # rows)))
             = (row_idx, Error, Some source)
               # fst (snd (resolve lower score fs_exists fs_rename thr
                             (FileRegistry_add lower registry' source, fs) rows))"
    using resolve_Cons(2) [OF r, of rows] by simp
  have e: "(\<forall>f p. \<exists>b. fs_exists f p = Inr b) \<longrightarrow>
              map fst (fst (snd (resolve lower score fs_exists fs_rename thr (registry, fs)
                                   ((row_idx, new_name, match_title) # rows))))
                = row_idx # map fst rows
              \<and> snd (snd (resolve lower score fs_exists fs_rename thr (registry, fs)
                             ((row_idx, new_name, match_title) # rows))) = None"
  proof
    assume a: "\<forall>f p. \<exists>b. fs_exists f p = Inr b"
    show "map fst (fst (snd (resolve lower score fs_exists fs_rename thr (registry, fs)
                                   ((row_idx, new_name, match_title) # rows))))
                = row_idx # map fst rows
              \<and> snd (snd (resolve lower score fs_exists fs_rename thr (registry, fs)
                             ((row_idx, new_name, match_title) # rows))) = None"
      using resolve_every_row [OF a, of lower score fs_rename thr "(registry, fs)"
          "(row_idx, new_name, match_title) # rows"]
      by simp
  qed
  from r av c resolve_Cons(3) [OF r, of rows] resolve_Cons(1) [OF r, of rows] e
  show ?thesis by blast
qed

theorem failed_rename_row_is_error_witness:
  "snd (resolve ascii_lower (\<lambda>a b. 0) list_exists list_rename 90
         (FileRegistry_init ascii_lower [Path (lit ''/a.m'')], [])
         [(1, lit ''b'', lit ''a.m''), (2, [], lit ''a.m'')])
     = ([(1, Error, Some [[47], lit ''a.m'']), (2, Unchanged, Some [[47], lit ''a.m''])], None)
   \<and> (\<forall>f p. \<exists>b. list_exists f p = Inr b)"
proof -
  let ?r0 = "FileRegistry_init ascii_lower [Path (lit ''/a.m'')]"
  let ?r1 = "FileRegistry_add ascii_lower \<lparr>by_name = [], by_stem = []\<rparr> [[47], lit ''a.m'']"
  have t: "FileRegistry_take ascii_lower (\<lambda>a b. 0) ?r0 (lit ''a.m'') 90
             = (Some [[47], lit ''a.m''], \<lparr>by_name = [], by_stem = []\<rparr>)"
    by (simp add: path_simps reg_simps Let_def)
  have tp: "target_path_of (lit ''b'') [[47], lit ''a.m''] \<noteq> [[47], lit ''a.m'']"
    by (simp add: path_simps pass_simps str_strip_def is_space_def Let_def)
  have ex: "list_exists [] (target_path_of (lit ''b'') [[47], lit ''a.m'']) = Inr False"
    by (simp add: list_exists_def)
  have rn: "list_rename [] [[47], lit ''a.m''] (target_path_of (lit ''b'') [[47], lit ''a.m'']) = None"
    by (simp add: list_rename_def)
  have tot: "\<forall>f p. \<exists>b. list_exists f p = Inr b"
    by (simp add: list_exists_def)
  have rest: "fst (snd (resolve ascii_lower (\<lambda>a b. 0) list_exists list_rename 90 (?r1, [])
                 [(2, [], lit ''a.m'')]))
                = [(2, Unchanged, Some [[47], lit ''a.m''])]"
    by (simp add: path_simps reg_simps pass_simps Let_def)
  note inst = failed_rename_row_is_error [OF t tp, of list_exists "[]", OF ex, of list_rename, OF rn,
        of 1 "[(2, [], lit ''a.m'')]"]
  have 1: "fst (snd (resolve ascii_lower (\<lambda>a b. 0) list_exists list_rename 90 (?r0, [])
              [(1, lit ''b'', lit ''a.m''), (2, [], lit ''a.m'')]))
          = (1, Error, Some [[47], lit ''a.m''])
            # fst (snd (resolve ascii_lower (\<lambda>a b. 0) list_exists list_rename 90 (?r1, [])
                 [(2, [], lit ''a.m'')]))"
    using inst by blast
  have 2: "snd (snd (resolve ascii_lower (\<lambda>a b. 0) list_exists list_rename 90 (?r0, [])
              [(1, lit ''b'', lit ''a.m''), (2, [], lit ''a.m'')])) = None"
    using inst tot by blast
  have "snd (resolve ascii_lower (\<lambda>a b. 0) list_exists list_rename 90 (?r0, [])
              [(1, lit ''b'', lit ''a.m''), (2, [], lit ''a.m'')])
          = ([(1, Error, Some [[47], lit ''a.m'']), (2, Unchanged, Some [[47], lit ''a.m''])], None)"
    using 1 2 unfolding rest by (simp add: prod_eq_iff)
  with tot show ?thesis by blast
qed


end
